theory Spec2Isabelle
  imports Main "HOL-Library.Word"
begin

section \<open>Data model of the relayer (src/scripts/relayer.js)\<close>

text \<open>
  The relayer is one class, \<^verbatim>\<open>ChainListener\<close>, with a subscription callback (the
  arrow function registered in \<^verbatim>\<open>start\<close>) and the method \<^verbatim>\<open>handleValueSetEvent\<close>.
  Both are asynchronous: each \<^verbatim>\<open>await\<close> talks to a party outside the program (the
  source chain's RPC endpoint, the proof service, the destination chain). The model
  makes those parties explicit: a \<open>world\<close> holds what each of them answers during one
  delivery, and every function returns, next to its result, the list of externally
  visible actions it performed, in order.
\<close>

type_synonym byte = "8 word"

record chain_config =
  name :: string
  chainId :: nat
  rpcUrl :: string
  contractAddress :: string

text \<open>The decoded arguments of a \<^verbatim>\<open>ValueSet\<close> event (the callback's first six
  parameters). The field \<open>value_bytes\<close> is the parameter \<^verbatim>\<open>value\<close>.\<close>

record event_args =
  sender :: string
  key :: string
  value_bytes :: "byte list"
  destinationChainId :: nat
  nonce :: nat
  hashedKey :: string

text \<open>The fields of \<^verbatim>\<open>event.log\<close> that the callback reads.\<close>

record event_log =
  log_blockHash :: string
  log_blockNumber :: nat
  log_transactionHash :: string
  log_index :: nat

text \<open>The object literal that the callback passes to \<^verbatim>\<open>handleValueSetEvent\<close>.\<close>

record relay_data =
  args :: event_args
  blockHash :: string
  blockNumber :: nat
  transactionHash :: string
  logIndex :: nat
  positionInBlock :: nat

subsection \<open>Answers of the outside world\<close>

text \<open>A promise either rejects (the \<^verbatim>\<open>await\<close> throws) or resolves with a value.\<close>

datatype 'a settled = Rejects | Resolves 'a

record block =
  timestamp :: nat

record receipt =
  receipt_index :: nat

text \<open>
  The response of \<^verbatim>\<open>receipt_requestProof\<close>: the HTTP status and the body
  (\<open>None\<close>: no body object, so that reading a property of it throws). The body's
  \<^verbatim>\<open>result\<close> is the job id, \<open>None\<close> when the property is absent.
\<close>

datatype request_body = RequestBody (req_result: "string option")

datatype request_response =
  RequestResponse (req_status: nat) (req_data: "request_body option")

text \<open>
  The response of \<^verbatim>\<open>receipt_queryProof\<close>: \<^verbatim>\<open>data.result.status\<close> and
  \<^verbatim>\<open>data.result.proof\<close> (the selector \<open>proof_b64\<close>), each level possibly
  absent (a JSON-RPC error body has no \<^verbatim>\<open>result\<close>).
\<close>

datatype proof_result =
  ProofResult (status: "string option") (proof_b64: "string option")

datatype query_body = QueryBody (result: "proof_result option")

datatype query_response = QueryResponse (data: "query_body option")

record tx_receipt =
  gasUsed :: nat

text \<open>
  What the outside world answers during one delivery of an event. \<open>queryProof w k\<close>
  is the answer to the poll issued when the attempt counter is \<open>k\<close> (so poll number
  \<open>k + 1\<close>). \<open>toUtf8String\<close> is the library function of ethers, \<open>None\<close> where it
  throws on malformed input. \<open>Number_toString\<close> is the runtime's
  \<^verbatim>\<open>Number.prototype.toString\<close>, applied by the code to the configured chain ids,
  which are numbers of the runtime: for an integer below \<open>2 ^ 53\<close> it gives the decimal
  digits, above that it rounds, so it is taken as given and not computed here. The chain
  id of an event is a big integer, whose \<^verbatim>\<open>toString\<close> is exact.
\<close>

record world =
  toUtf8String :: "byte list \<Rightarrow> string option"
  Number_toString :: "nat \<Rightarrow> string"
  getBlock :: "nat \<Rightarrow> block option settled"
  getTransactionReceipt :: "receipt option settled"
  requestProof :: "request_response settled"
  queryProof :: "nat \<Rightarrow> query_response settled"
  estimateGas :: "nat settled"
  setValueFromSource :: "string settled"
  wait :: "tx_receipt settled"

subsection \<open>Errors and actions\<close>

text \<open>
  The errors a delivery can raise. In the taxonomy of the specification,
  \<open>ProofRequestFailed\<close> is the ProofRequestError, \<open>ProofTimeout\<close> the ProofTimeoutError
  (the \<^verbatim>\<open>Error\<close> thrown at the attempt ceiling), and \<open>GasEstimationError\<close>,
  \<open>TransactionError\<close> and \<open>ConfirmationError\<close> are the SubmissionError (the three
  destination calls rejecting). \<open>HttpError\<close> is a rejected \<^verbatim>\<open>axios.post\<close>,
  \<open>RpcError\<close> a rejected call to the source chain, \<open>TypeError\<close> a property read on
  an absent object, \<open>RangeError\<close> an invalid date, \<open>Utf8Error\<close> a value that is not
  UTF-8.
\<close>

datatype error =
    TypeError
  | RangeError
  | Utf8Error
  | RpcError
  | HttpError
  | ProofRequestFailed nat
  | ProofTimeout
  | GasEstimationError
  | TransactionError
  | ConfirmationError

datatype log_line =
    ProofStatus "string option"
  | TransactionConfirmed nat

datatype error_line =
    NoConfiguration string
  | ErrorHandling error
  | ErrorProcessing error

text \<open>
  The actions visible from outside, in the order performed. Of the informational
  \<^verbatim>\<open>console.log\<close> lines only two are kept: the poll's status line (it reads
  \<^verbatim>\<open>data.result.status\<close> and can throw) and the confirmation line. Every
  \<^verbatim>\<open>console.error\<close> is kept.
\<close>

datatype action =
    GetBlock nat
  | GetTransactionReceipt string
  | PostRequestProof nat nat nat nat
  | Sleep nat
  | PostQueryProof "string option"
  | EstimateGas chain_config nat string
  | SendTransaction chain_config nat string nat
  | WaitTransaction string
  | ConsoleLog log_line
  | ConsoleError error_line

subsection \<open>Results with a trace\<close>

text \<open>A computation returns a value or throws, and has performed a list of actions.\<close>

type_synonym 'a io = "(error + 'a) \<times> action list"

definition io_return :: "'a \<Rightarrow> 'a io" where
  "io_return x = (Inr x, [])"

definition throw :: "error \<Rightarrow> 'a io" where
  "throw e = (Inl e, [])"

definition emit :: "action \<Rightarrow> unit io" where
  "emit a = (Inr (), [a])"

text \<open>\<open>await a e p\<close>: perform the call \<open>a\<close>; if its promise rejects, throw \<open>e\<close>.\<close>

definition await :: "action \<Rightarrow> error \<Rightarrow> 'a settled \<Rightarrow> 'a io" where
  "await a e p = (case p of Rejects \<Rightarrow> (Inl e, [a]) | Resolves x \<Rightarrow> (Inr x, [a]))"

text \<open>Sequencing: a throw skips the rest; the traces are concatenated.\<close>

definition io_bind :: "'a io \<Rightarrow> ('a \<Rightarrow> 'b io) \<Rightarrow> 'b io" where
  "io_bind m f =
     (case m of
        (Inl e, t) \<Rightarrow> (Inl e, t)
      | (Inr x, t) \<Rightarrow> (case f x of (r, t') \<Rightarrow> (r, t @ t')))"

subsection \<open>Numbers as decimal strings\<close>

definition digits :: string where
  "digits = ''0123456789''"

text \<open>\<^verbatim>\<open>toString()\<close> of a non-negative integer: its decimal digits.\<close>

fun toString :: "nat \<Rightarrow> string" where
  "toString n =
     (if n < 10 then [digits ! n] else toString (n div 10) @ [digits ! (n mod 10)])"

declare toString.simps [simp del]

definition digit_value :: "char \<Rightarrow> nat option" where
  "digit_value c =
     (let n = (of_char c :: nat) in if 48 \<le> n \<and> n \<le> 57 then Some (n - 48) else None)"

text \<open>\<^verbatim>\<open>parseInt\<close> on the digits at the start of a string (the only inputs it gets
  here are decimal renderings; the loss of precision above \<open>2 ^ 53\<close> is not modelled).\<close>

fun parseInt_from :: "nat \<Rightarrow> string \<Rightarrow> nat" where
  "parseInt_from acc [] = acc"
| "parseInt_from acc (c # cs) =
     (case digit_value c of None \<Rightarrow> acc | Some d \<Rightarrow> parseInt_from (10 * acc + d) cs)"

definition parseInt :: "string \<Rightarrow> nat" where
  "parseInt s = parseInt_from 0 s"

section \<open>The proof poll loop (relayer.js, lines 233-261)\<close>

text \<open>
  The loop's condition is
  \<^verbatim>\<open>!proofResponse?.data || !proofResponse?.data?.result?.proof\<close>. It is false
  exactly when the response has a body with a result whose \<^verbatim>\<open>proof\<close> is truthy (a
  non-empty string); \<open>ready_proof\<close> then gives that proof, which is what line 261 reads
  after the loop.
\<close>

definition ready_proof :: "query_response option \<Rightarrow> string option" where
  "ready_proof proofResponse =
     (case proofResponse of
        None \<Rightarrow> None
      | Some r \<Rightarrow>
          (case data r of
             None \<Rightarrow> None
           | Some b \<Rightarrow>
               (case result b of
                  None \<Rightarrow> None
                | Some res \<Rightarrow>
                    (case proof_b64 res of
                       None \<Rightarrow> None
                     | Some p \<Rightarrow> if p = [] then None else Some p))))"

text \<open>Line 257: \<^verbatim>\<open>console.log(`>  Proof status: ${proofResponse.data.result.status}...`)\<close>,
  a \<^verbatim>\<open>TypeError\<close> when \<^verbatim>\<open>data\<close> or \<^verbatim>\<open>result\<close> is absent.\<close>

definition log_status :: "query_response \<Rightarrow> unit io" where
  "log_status proofResponse =
     (case data proofResponse of
        None \<Rightarrow> throw TypeError
      | Some b \<Rightarrow>
          (case result b of
             None \<Rightarrow> throw TypeError
           | Some res \<Rightarrow> emit (ConsoleLog (ProofStatus (status res)))))"

text \<open>
  The \<^verbatim>\<open>while\<close> loop, as a function of its variables: the constant \<^verbatim>\<open>delay\<close>, the
  counter \<^verbatim>\<open>attempts\<close> and \<^verbatim>\<open>proofResponse\<close> (\<open>None\<close>: still undefined).
\<close>

function poll_loop ::
  "world \<Rightarrow> string option \<Rightarrow> nat \<Rightarrow> nat \<Rightarrow> query_response option \<Rightarrow> string io" where
  "poll_loop w jobId delay attempts proofResponse =
     (case ready_proof proofResponse of
        Some p \<Rightarrow> io_return p
      | None \<Rightarrow>
          if attempts \<ge> 10 then throw ProofTimeout
          else
            io_bind (emit (Sleep delay)) (\<lambda>_.
            io_bind (await (PostQueryProof jobId) HttpError (queryProof w attempts)) (\<lambda>r.
            io_bind (log_status r) (\<lambda>_.
            poll_loop w jobId delay (attempts + 1) (Some r)))))"
  by pat_completeness auto
termination
  by (relation "measure (\<lambda>(w, jobId, delay, attempts, proofResponse). 10 - attempts)") auto

declare poll_loop.simps [simp del]

text \<open>Lines 234-236 and the loop: the counter starts at 0 and the delay is computed
  once, before the loop.\<close>

definition awaitProof :: "world \<Rightarrow> string option \<Rightarrow> string io" where
  "awaitProof w jobId =
     (let attempts = 0 :: nat;
          delay = (if attempts = 0 then 10000 else 5000)
      in poll_loop w jobId delay attempts None)"

section \<open>Base64 and hexadecimal (the runtime's \<^verbatim>\<open>Buffer\<close>, ethers' byte strings)\<close>

text \<open>
  Line 268 is \<^verbatim>\<open>`0x${Buffer.from(proof, "base64").toString("hex")}`\<close>. \<^verbatim>\<open>Buffer\<close>
  belongs to the runtime, not to the repository; it is modelled here after its
  documented behaviour. The decoder is the lenient one: it accepts the standard and the
  URL-safe alphabet, skips every character outside them, and stops at the first
  \<^verbatim>\<open>=\<close>. Each character gives six bits; bytes are emitted as soon as eight bits
  are there, and bits left over at the end are dropped.
\<close>

definition unbase64 :: "char \<Rightarrow> nat option" where
  "unbase64 c =
     (let n = (of_char c :: nat) in
      if 65 \<le> n \<and> n \<le> 90 then Some (n - 65)
      else if 97 \<le> n \<and> n \<le> 122 then Some (n - 71)
      else if 48 \<le> n \<and> n \<le> 57 then Some (n + 4)
      else if n = 43 \<or> n = 45 then Some 62
      else if n = 47 \<or> n = 95 then Some 63
      else None)"

fun sextets :: "string \<Rightarrow> nat list" where
  "sextets [] = []"
| "sextets (c # cs) =
     (if c = CHR ''='' then []
      else (case unbase64 c of None \<Rightarrow> sextets cs | Some v \<Rightarrow> v # sextets cs))"

fun sextets_to_bytes :: "nat list \<Rightarrow> byte list" where
  "sextets_to_bytes (a # b # c # d # r) =
     of_nat (a * 4 + b div 16) # of_nat ((b mod 16) * 16 + c div 4) #
     of_nat ((c mod 4) * 64 + d) # sextets_to_bytes r"
| "sextets_to_bytes [a, b, c] =
     [of_nat (a * 4 + b div 16), of_nat ((b mod 16) * 16 + c div 4)]"
| "sextets_to_bytes [a, b] = [of_nat (a * 4 + b div 16)]"
| "sextets_to_bytes [a] = []"
| "sextets_to_bytes [] = []"

text \<open>\<^verbatim>\<open>Buffer.from(s, "base64")\<close>.\<close>

definition Buffer_from_base64 :: "string \<Rightarrow> byte list" where
  "Buffer_from_base64 s = sextets_to_bytes (sextets s)"

definition base64_table :: string where
  "base64_table = ''ABCDEFGHIJKLMNOPQRSTUVWXYZabcdefghijklmnopqrstuvwxyz0123456789+/''"

text \<open>\<^verbatim>\<open>buf.toString("base64")\<close>: RFC 4648 with padding.\<close>

fun toString_base64 :: "byte list \<Rightarrow> string" where
  "toString_base64 (x # y # z # r) =
     base64_table ! (unat x div 4) #
     base64_table ! ((unat x mod 4) * 16 + unat y div 16) #
     base64_table ! ((unat y mod 16) * 4 + unat z div 64) #
     base64_table ! (unat z mod 64) # toString_base64 r"
| "toString_base64 [x, y] =
     [base64_table ! (unat x div 4),
      base64_table ! ((unat x mod 4) * 16 + unat y div 16),
      base64_table ! ((unat y mod 16) * 4), CHR ''='']"
| "toString_base64 [x] =
     [base64_table ! (unat x div 4), base64_table ! ((unat x mod 4) * 16),
      CHR ''='', CHR ''='']"
| "toString_base64 [] = []"

definition hex_table :: string where
  "hex_table = ''0123456789abcdef''"

text \<open>\<^verbatim>\<open>buf.toString("hex")\<close>: two lower-case digits for each byte.\<close>

fun toString_hex :: "byte list \<Rightarrow> string" where
  "toString_hex [] = []"
| "toString_hex (x # r) =
     hex_table ! (unat x div 16) # hex_table ! (unat x mod 16) # toString_hex r"

definition hex_value :: "char \<Rightarrow> nat option" where
  "hex_value c =
     (let n = (of_char c :: nat) in
      if 48 \<le> n \<and> n \<le> 57 then Some (n - 48)
      else if 97 \<le> n \<and> n \<le> 102 then Some (n - 87)
      else if 65 \<le> n \<and> n \<le> 70 then Some (n - 55)
      else None)"

fun hex_pairs :: "string \<Rightarrow> byte list option" where
  "hex_pairs [] = Some []"
| "hex_pairs [h] = None"
| "hex_pairs (h # l # r) =
     (case hex_value h of
        None \<Rightarrow> None
      | Some a \<Rightarrow>
          (case hex_value l of
             None \<Rightarrow> None
           | Some b \<Rightarrow>
               (case hex_pairs r of
                  None \<Rightarrow> None
                | Some bs \<Rightarrow> Some (of_nat (16 * a + b) # bs))))"

text \<open>
  How ethers reads a \<^verbatim>\<open>0x\<close> string passed for a \<^verbatim>\<open>bytes\<close> argument (its
  \<^verbatim>\<open>getBytes\<close>): the bytes that the contract call carries, \<open>None\<close> where the string
  is refused.
\<close>

definition getBytes :: "string \<Rightarrow> byte list option" where
  "getBytes s =
     (case s of
        h # x # r \<Rightarrow> if h = CHR ''0'' \<and> x = CHR ''x'' then hex_pairs r else None
      | _ \<Rightarrow> None)"

section \<open>The relay routine \<^verbatim>\<open>handleValueSetEvent\<close> (relayer.js, lines 175-309)\<close>

text \<open>
  Lines 261-308, the submission: the proof is decoded, the gas of the destination call
  is estimated, the call is sent with exactly that limit, and its confirmation awaited.
  The index argument is the constant 0. The construction of the destination's provider,
  wallet and contract objects (lines 271-279) makes no call and is taken not to throw.
\<close>

definition submitProof :: "world \<Rightarrow> chain_config \<Rightarrow> string \<Rightarrow> unit io" where
  "submitProof w destinationChain proof =
     (let proofInBytes = ''0x'' @ toString_hex (Buffer_from_base64 proof) in
      io_bind (await (EstimateGas destinationChain 0 proofInBytes)
                GasEstimationError (estimateGas w)) (\<lambda>estimatedGas.
      io_bind (await (SendTransaction destinationChain 0 proofInBytes estimatedGas)
                TransactionError (setValueFromSource w)) (\<lambda>tx.
      io_bind (await (WaitTransaction tx) ConfirmationError (wait w)) (\<lambda>receipt.
      emit (ConsoleLog (TransactionConfirmed (gasUsed receipt)))))))"

text \<open>
  Lines 179-181, the \<^verbatim>\<open>find\<close> over \<^verbatim>\<open>Object.values(CHAINS)\<close>: the first
  configuration whose \<^verbatim>\<open>chainId.toString()\<close>, the string of a number, is the
  destination's string.
\<close>

definition destination_chain ::
  "world \<Rightarrow> chain_config list \<Rightarrow> string \<Rightarrow> chain_config option" where
  "destination_chain w CHAINS destinationId =
     find (\<lambda>chain. Number_toString w (chainId chain) = destinationId) CHAINS"

text \<open>
  The whole routine. \<open>config\<close> is \<^verbatim>\<open>this.config\<close> and \<open>CHAINS\<close> is
  \<^verbatim>\<open>Object.values(CHAINS)\<close>, the activated chain configurations in their order. The
  routine returns normally in two ways: after the \<^verbatim>\<open>console.error\<close> of line 184
  (no configuration for the destination) and after the confirmation of line 301.
\<close>

definition handleValueSetEvent ::
  "chain_config \<Rightarrow> chain_config list \<Rightarrow> world \<Rightarrow> relay_data \<Rightarrow> unit io" where
  "handleValueSetEvent config CHAINS w dat =
     (let destinationChainId = toString (destinationChainId (args dat)) in
      case destination_chain w CHAINS destinationChainId of
        None \<Rightarrow> emit (ConsoleError (NoConfiguration destinationChainId))
      | Some destinationChain \<Rightarrow>
          io_bind (await (PostRequestProof (chainId config) (parseInt destinationChainId)
                     (blockNumber dat) (positionInBlock dat))
                    HttpError (requestProof w)) (\<lambda>proofRequest.
          if req_status proofRequest \<noteq> 200
          then throw (ProofRequestFailed (req_status proofRequest))
          else
          io_bind (case req_data proofRequest of
                     None \<Rightarrow> throw TypeError
                   | Some b \<Rightarrow> io_return (req_result b)) (\<lambda>jobId.
          io_bind (awaitProof w jobId) (\<lambda>proof.
          submitProof w destinationChain proof))))"

section \<open>The subscription callback (relayer.js, lines 63-172)\<close>

text \<open>\<^verbatim>\<open>try { ... } catch (error) { ... }\<close>.\<close>

definition try_catch :: "'a io \<Rightarrow> (error \<Rightarrow> 'a io) \<Rightarrow> 'a io" where
  "try_catch m h =
     (case m of
        (Inl e, t) \<Rightarrow> (case h e of (r, t') \<Rightarrow> (r, t @ t'))
      | (Inr x, t) \<Rightarrow> (Inr x, t))"

text \<open>Line 76: the event identifier, the key of \<^verbatim>\<open>processedEvents\<close>.\<close>

definition eventId :: "event_log \<Rightarrow> string" where
  "eventId lg =
     log_blockHash lg @ ''-'' @ log_transactionHash lg @ ''-'' @ toString (log_index lg)"

text \<open>
  Lines 83-143: the two calls to the source chain and the statements between them and
  the inner \<^verbatim>\<open>try\<close> that can throw: \<^verbatim>\<open>receipt.index\<close> on a missing receipt,
  \<^verbatim>\<open>ethers.toUtf8String(value)\<close>, and \<^verbatim>\<open>toISOString()\<close> of a date out of range
  (more than 8 640 000 000 000 000 ms). The result is \<^verbatim>\<open>positionInBlock\<close>.
\<close>

definition describe_event :: "world \<Rightarrow> event_args \<Rightarrow> event_log \<Rightarrow> nat io" where
  "describe_event w a lg =
     io_bind (await (GetBlock (log_blockNumber lg)) RpcError
               (getBlock w (log_blockNumber lg))) (\<lambda>block.
     io_bind (await (GetTransactionReceipt (log_transactionHash lg)) RpcError
               (getTransactionReceipt w)) (\<lambda>receipt.
     io_bind (case receipt of
                None \<Rightarrow> throw TypeError
              | Some r \<Rightarrow> io_return (receipt_index r)) (\<lambda>positionInBlock.
     io_bind (case toUtf8String w (value_bytes a) of
                None \<Rightarrow> throw Utf8Error
              | Some valueDecoded \<Rightarrow> io_return ()) (\<lambda>_.
     io_bind (case block of
                None \<Rightarrow> io_return ()
              | Some b \<Rightarrow>
                  if timestamp b * 1000 > 8640000000000000 then throw RangeError
                  else io_return ()) (\<lambda>_.
     io_return positionInBlock)))))"

text \<open>
  The callbacks return the registry \<^verbatim>\<open>processedEvents\<close> as it is when they finish.
  Its only mutation is the \<^verbatim>\<open>add\<close> of line 161, the last statement of the inner
  \<^verbatim>\<open>try\<close>, so on every path through a \<^verbatim>\<open>catch\<close> it is the registry the callback
  started with.
\<close>

definition handling_error :: "string set \<Rightarrow> error \<Rightarrow> string set io" where
  "handling_error processedEvents e =
     io_bind (emit (ConsoleError (ErrorHandling e))) (\<lambda>_. io_return processedEvents)"

definition processing_error :: "string set \<Rightarrow> error \<Rightarrow> string set io" where
  "processing_error processedEvents e =
     io_bind (emit (ConsoleError (ErrorProcessing e))) (\<lambda>_. io_return processedEvents)"

text \<open>Lines 146-160: the object passed to the relay routine.\<close>

definition data_of :: "event_args \<Rightarrow> event_log \<Rightarrow> nat \<Rightarrow> relay_data" where
  "data_of a lg position =
     \<lparr>args = a, blockHash = log_blockHash lg, blockNumber = log_blockNumber lg,
      transactionHash = log_transactionHash lg, logIndex = log_index lg,
      positionInBlock = position\<rparr>"

text \<open>Lines 83-167: the callback after the duplicate check.\<close>

definition callback_rest ::
  "chain_config \<Rightarrow> chain_config list \<Rightarrow> world \<Rightarrow> string set \<Rightarrow> event_args \<Rightarrow> event_log
   \<Rightarrow> string set io" where
  "callback_rest config CHAINS w processedEvents a lg =
     io_bind (describe_event w a lg) (\<lambda>positionInBlock.
     try_catch
       (io_bind (handleValueSetEvent config CHAINS w (data_of a lg positionInBlock)) (\<lambda>_.
        io_return (insert (eventId lg) processedEvents)))
       (handling_error processedEvents))"

text \<open>Lines 74-171: the whole callback.\<close>

definition on_ValueSet ::
  "chain_config \<Rightarrow> chain_config list \<Rightarrow> world \<Rightarrow> string set \<Rightarrow> event_args \<Rightarrow> event_log
   \<Rightarrow> string set io" where
  "on_ValueSet config CHAINS w processedEvents a lg =
     try_catch
       (if eventId lg \<in> processedEvents then io_return processedEvents
        else callback_rest config CHAINS w processedEvents a lg)
       (processing_error processedEvents)"

section \<open>The listener over several deliveries\<close>

text \<open>
  A delivery is one invocation of the callback: the event's arguments and log, and the
  world that answers this invocation's calls.
\<close>

type_synonym delivery = "world \<times> event_args \<times> event_log"

text \<open>The registry after a callback: a rejected callback would leave it as it was.\<close>

definition registry_after :: "string set \<Rightarrow> string set io \<Rightarrow> string set" where
  "registry_after processedEvents res =
     (case fst res of Inl e \<Rightarrow> processedEvents | Inr reg \<Rightarrow> reg)"

text \<open>
  Deliveries processed one after the other, each callback finishing before the next
  starts: the final registry and the trace of every delivery.
\<close>

fun deliver_all ::
  "chain_config \<Rightarrow> chain_config list \<Rightarrow> string set \<Rightarrow> delivery list
   \<Rightarrow> string set \<times> action list list" where
  "deliver_all config CHAINS processedEvents [] = (processedEvents, [])"
| "deliver_all config CHAINS processedEvents ((w, a, lg) # ds) =
     (let res = on_ValueSet config CHAINS w processedEvents a lg;
          rest = deliver_all config CHAINS (registry_after processedEvents res) ds
      in (fst rest, snd res # snd rest))"

text \<open>
  Deliveries in flight at the same time. The runtime is single-threaded: a callback
  runs until its next \<^verbatim>\<open>await\<close> and then yields. The registry is read only by the
  check of line 79, before the first \<^verbatim>\<open>await\<close>, and written only by the
  \<^verbatim>\<open>add\<close> of line 161, after the last one; nothing else is shared. So a callback is
  two steps for the registry: the check, and everything after it. A task is a callback
  that has not started (\<open>Delivered\<close>), one that has passed the check and is suspended
  (\<open>Awaiting\<close>), or one that has finished. The actions of the second step are
  recorded together, when the task finishes; in the runtime they can be interleaved
  with another task's, which changes their order and not which actions are performed.
\<close>

datatype task =
    Delivered world event_args event_log
  | Awaiting world event_args event_log
  | Finished

record listener =
  registry :: "string set"
  tasks :: "task list"
  performed :: "action list"

text \<open>\<open>resume i\<close>: the runtime lets task \<open>i\<close> run its next step.\<close>

definition resume :: "chain_config \<Rightarrow> chain_config list \<Rightarrow> nat \<Rightarrow> listener \<Rightarrow> listener" where
  "resume config CHAINS i s =
     (if i < length (tasks s) then
        (case tasks s ! i of
           Delivered w a lg \<Rightarrow>
             if eventId lg \<in> registry s then s\<lparr>tasks := (tasks s)[i := Finished]\<rparr>
             else s\<lparr>tasks := (tasks s)[i := Awaiting w a lg]\<rparr>
         | Awaiting w a lg \<Rightarrow>
             (let res = try_catch (callback_rest config CHAINS w (registry s) a lg)
                          (processing_error (registry s))
              in s\<lparr>registry := registry_after (registry s) res,
                    tasks := (tasks s)[i := Finished],
                    performed := performed s @ snd res\<rparr>)
         | Finished \<Rightarrow> s)
      else s)"

fun run :: "chain_config \<Rightarrow> chain_config list \<Rightarrow> nat list \<Rightarrow> listener \<Rightarrow> listener" where
  "run config CHAINS [] s = s"
| "run config CHAINS (i # sched) s = run config CHAINS sched (resume config CHAINS i s)"

section \<open>Observations on traces and responses\<close>

fun is_poll :: "action \<Rightarrow> bool" where
  "is_poll (PostQueryProof j) = True"
| "is_poll _ = False"

definition polls_issued :: "action list \<Rightarrow> nat" where
  "polls_issued t = length (filter is_poll t)"

fun is_sleep :: "action \<Rightarrow> bool" where
  "is_sleep (Sleep d) = True"
| "is_sleep _ = False"

text \<open>The delays awaited, in order.\<close>

fun delays :: "action list \<Rightarrow> nat list" where
  "delays [] = []"
| "delays (Sleep d # t) = d # delays t"
| "delays (x # t) = delays t"

fun is_estimate :: "action \<Rightarrow> bool" where
  "is_estimate (EstimateGas c i p) = True"
| "is_estimate _ = False"

fun is_submission :: "action \<Rightarrow> bool" where
  "is_submission (SendTransaction c i p g) = True"
| "is_submission _ = False"

fun is_confirmed :: "action \<Rightarrow> bool" where
  "is_confirmed (ConsoleLog (TransactionConfirmed g)) = True"
| "is_confirmed _ = False"

fun is_dropped :: "action \<Rightarrow> bool" where
  "is_dropped (ConsoleError (NoConfiguration d)) = True"
| "is_dropped _ = False"

fun is_error_report :: "action \<Rightarrow> bool" where
  "is_error_report (ConsoleError (ErrorHandling e)) = True"
| "is_error_report (ConsoleError (ErrorProcessing e)) = True"
| "is_error_report _ = False"

text \<open>A call to the proof service or to a destination chain.\<close>

fun is_network_call :: "action \<Rightarrow> bool" where
  "is_network_call (PostRequestProof s d b p) = True"
| "is_network_call (PostQueryProof j) = True"
| "is_network_call (EstimateGas c i p) = True"
| "is_network_call (SendTransaction c i p g) = True"
| "is_network_call (WaitTransaction tx) = True"
| "is_network_call _ = False"

text \<open>The response body has a \<^verbatim>\<open>result\<close> object.\<close>

definition has_result :: "query_response \<Rightarrow> bool" where
  "has_result r = (case data r of None \<Rightarrow> False | Some b \<Rightarrow> result b \<noteq> None)"

text \<open>A poll that resolves with a result object and no ready proof.\<close>

definition pending_poll :: "query_response settled \<Rightarrow> bool" where
  "pending_poll p =
     (case p of
        Rejects \<Rightarrow> False
      | Resolves r \<Rightarrow> has_result r \<and> ready_proof (Some r) = None)"

section \<open>Example inputs\<close>

definition optimism :: chain_config where
  "optimism = \<lparr>name = ''Optimism Sepolia'', chainId = 11155420,
     rpcUrl = ''https://optimism.example'', contractAddress = ''0xaa''\<rparr>"

definition base :: chain_config where
  "base = \<lparr>name = ''Base Sepolia'', chainId = 84532,
     rpcUrl = ''https://base.example'', contractAddress = ''0xbb''\<rparr>"

definition pending :: query_response where
  "pending = QueryResponse (Some (QueryBody (Some (ProofResult (Some ''pending'') None))))"

definition complete :: query_response where
  "complete =
     QueryResponse (Some (QueryBody (Some (ProofResult (Some ''complete'') (Some ''AQID'')))))"

text \<open>A JSON-RPC error body: no \<^verbatim>\<open>result\<close>.\<close>

definition error_body :: query_response where
  "error_body = QueryResponse (Some (QueryBody None))"

text \<open>A world in which everything succeeds; the proof is ready on the third poll.\<close>

definition world_ok :: world where
  "world_ok =
     \<lparr>toUtf8String = (\<lambda>bs. Some ''v''),
      Number_toString = toString,
      getBlock = (\<lambda>n. Resolves (Some \<lparr>timestamp = 1700000000\<rparr>)),
      getTransactionReceipt = Resolves (Some \<lparr>receipt_index = 7\<rparr>),
      requestProof = Resolves (RequestResponse 200 (Some (RequestBody (Some ''job1'')))),
      queryProof = (\<lambda>k. Resolves (if k < 2 then pending else complete)),
      estimateGas = Resolves 21000,
      setValueFromSource = Resolves ''0xtx'',
      wait = Resolves \<lparr>gasUsed = 20000\<rparr>\<rparr>"

definition world_never_ready :: world where
  "world_never_ready = world_ok\<lparr>queryProof := (\<lambda>k. Resolves pending)\<rparr>"

text \<open>The second poll is answered with an error body.\<close>

definition world_error_body :: world where
  "world_error_body =
     world_ok\<lparr>queryProof := (\<lambda>k. Resolves (if k = 0 then pending else error_body))\<rparr>"

text \<open>Every poll is answered with an error body.\<close>

definition world_error_only :: world where
  "world_error_only = world_ok\<lparr>queryProof := (\<lambda>k. Resolves error_body)\<rparr>"

text \<open>The HTTP request of the first poll fails.\<close>

definition world_poll_rejects :: world where
  "world_poll_rejects = world_ok\<lparr>queryProof := (\<lambda>k. Rejects)\<rparr>"

text \<open>The source chain's RPC endpoint does not answer.\<close>

definition world_rpc_fails :: world where
  "world_rpc_fails = world_ok\<lparr>getBlock := (\<lambda>n. Rejects)\<rparr>"

text \<open>The transaction is sent, and its confirmation fails.\<close>

definition world_wait_fails :: world where
  "world_wait_fails = world_ok\<lparr>wait := Rejects\<rparr>"

text \<open>A configured chain id of \<open>2 ^ 60\<close>, which the runtime prints rounded.\<close>

definition world_rounding :: world where
  "world_rounding =
     world_ok\<lparr>Number_toString :=
       (\<lambda>n. if n = 2 ^ 60 then ''1152921504606847000'' else toString n)\<rparr>"

definition big_chain :: chain_config where
  "big_chain = base\<lparr>chainId := 2 ^ 60\<rparr>"

definition world_gas_fails :: world where
  "world_gas_fails = world_ok\<lparr>estimateGas := Rejects\<rparr>"

definition world_request_fails :: world where
  "world_request_fails = world_ok\<lparr>requestProof := Rejects\<rparr>"

definition args_to_base :: event_args where
  "args_to_base =
     \<lparr>sender = ''0x01'', key = ''k'', value_bytes = [118], destinationChainId = 84532,
      nonce = 1, hashedKey = ''0xhk''\<rparr>"

text \<open>The same event, addressed to a chain that is not configured.\<close>

definition args_to_unknown :: event_args where
  "args_to_unknown = args_to_base\<lparr>destinationChainId := 5\<rparr>"

definition log1 :: event_log where
  "log1 =
     \<lparr>log_blockHash = ''0xb1'', log_blockNumber = 100, log_transactionHash = ''0xt1'',
      log_index = 3\<rparr>"

definition log2 :: event_log where
  "log2 = log1\<lparr>log_index := 4\<rparr>"

text \<open>The kinds of action of the poll loop.\<close>

fun is_poll_action :: "action \<Rightarrow> bool" where
  "is_poll_action (Sleep d) = True"
| "is_poll_action (PostQueryProof j) = True"
| "is_poll_action (ConsoleLog (ProofStatus st)) = True"
| "is_poll_action _ = False"

text \<open>The proof request of lines 198-216, as an action.\<close>

definition request_action :: "chain_config \<Rightarrow> relay_data \<Rightarrow> action" where
  "request_action config dat =
     PostRequestProof (chainId config) (parseInt (toString (destinationChainId (args dat))))
       (blockNumber dat) (positionInBlock dat)"

text \<open>The polls of \<open>world_ok\<close>, as actions.\<close>

definition polls_of_example :: "action list" where
  "polls_of_example =
     [Sleep 10000, PostQueryProof (Some ''job1''), ConsoleLog (ProofStatus (Some ''pending'')),
      Sleep 10000, PostQueryProof (Some ''job1''), ConsoleLog (ProofStatus (Some ''pending'')),
      Sleep 10000, PostQueryProof (Some ''job1''), ConsoleLog (ProofStatus (Some ''complete''))]"

text \<open>Three deliveries of the same event: the gas estimation of the first fails, the
  second succeeds, the third comes after the success.\<close>

definition three_deliveries :: "delivery list" where
  "three_deliveries =
     [(world_gas_fails, args_to_base, log1), (world_ok, args_to_base, log1),
      (world_ok, args_to_base, log1)]"

text \<open>Two deliveries of the same event, neither started.\<close>

definition two_concurrent :: listener where
  "two_concurrent =
     \<lparr>registry = {},
      tasks = [Delivered world_ok args_to_base log1, Delivered world_ok args_to_base log1],
      performed = []\<rparr>"

section \<open>Properties\<close>

lemmas io_defs = io_return_def throw_def emit_def await_def io_bind_def try_catch_def

subsection \<open>The poll loop, one iteration at a time\<close>

lemma poll_loop_ready:
  "ready_proof pr = Some p \<Longrightarrow> poll_loop w j d a pr = (Inr p, [])"
  by (subst poll_loop.simps) (simp add: io_defs)

lemma poll_loop_timeout:
  "ready_proof pr = None \<Longrightarrow> 10 \<le> a \<Longrightarrow> poll_loop w j d a pr = (Inl ProofTimeout, [])"
  by (subst poll_loop.simps) (simp add: io_defs)

lemma poll_loop_rejects:
  "ready_proof pr = None \<Longrightarrow> a < 10 \<Longrightarrow> queryProof w a = Rejects \<Longrightarrow>
   poll_loop w j d a pr = (Inl HttpError, [Sleep d, PostQueryProof j])"
  by (subst poll_loop.simps) (simp add: io_defs)

lemma poll_loop_no_result:
  "ready_proof pr = None \<Longrightarrow> a < 10 \<Longrightarrow> queryProof w a = Resolves r \<Longrightarrow> \<not> has_result r \<Longrightarrow>
   poll_loop w j d a pr = (Inl TypeError, [Sleep d, PostQueryProof j])"
  by (subst poll_loop.simps)
     (auto simp add: io_defs has_result_def log_status_def split: option.splits)

lemma poll_loop_step:
  "ready_proof pr = None \<Longrightarrow> a < 10 \<Longrightarrow> queryProof w a = Resolves r \<Longrightarrow> has_result r \<Longrightarrow>
   \<exists>st. poll_loop w j d a pr =
     (fst (poll_loop w j d (Suc a) (Some r)),
      [Sleep d, PostQueryProof j, ConsoleLog (ProofStatus st)] @
      snd (poll_loop w j d (Suc a) (Some r)))"
  by (subst poll_loop.simps)
     (auto simp add: io_defs has_result_def log_status_def
           split: option.splits prod.splits sum.splits)

lemma ready_has_result: "ready_proof (Some r) = Some p \<Longrightarrow> has_result r"
  by (auto simp: ready_proof_def has_result_def split: option.splits)

lemma pending_pollD:
  "pending_poll p \<Longrightarrow> \<exists>r. p = Resolves r \<and> has_result r \<and> ready_proof (Some r) = None"
  by (cases p) (simp_all add: pending_poll_def)

text \<open>While the polls are pending, the loop goes on: from counter \<open>a\<close> to counter \<open>m\<close>
  it issues \<open>m - a\<close> polls, each after the delay \<open>d\<close>.\<close>

lemma poll_loop_prefix:
  "ready_proof pr = None \<Longrightarrow> a \<le> m \<Longrightarrow> m \<le> 10 \<Longrightarrow>
   (\<forall>k. a \<le> k \<and> k < m \<longrightarrow> pending_poll (queryProof w k)) \<Longrightarrow>
   \<exists>pr' t. ready_proof pr' = None \<and> polls_issued t = m - a \<and>
     delays t = replicate (m - a) d \<and>
     poll_loop w j d a pr = (fst (poll_loop w j d m pr'), t @ snd (poll_loop w j d m pr'))"
proof (induction "m - a" arbitrary: a pr)
  case 0
  then have "a = m" by simp
  with "0.prems"(1) show ?case
    by (intro exI[of _ pr] exI[of _ "[]"]) (simp add: polls_issued_def)
next
  case (Suc n)
  then have a: "a < 10" "a < m" by simp_all
  with Suc.prems have "pending_poll (queryProof w a)" by simp
  then obtain r where r: "queryProof w a = Resolves r" "has_result r" "ready_proof (Some r) = None"
    using pending_pollD by blast
  from poll_loop_step[OF Suc.prems(1) a(1) r(1,2)] obtain st where
    st: "poll_loop w j d a pr =
     (fst (poll_loop w j d (Suc a) (Some r)),
      [Sleep d, PostQueryProof j, ConsoleLog (ProofStatus st)] @
      snd (poll_loop w j d (Suc a) (Some r)))" by blast
  have "\<exists>pr' t. ready_proof pr' = None \<and> polls_issued t = m - Suc a \<and>
     delays t = replicate (m - Suc a) d \<and>
     poll_loop w j d (Suc a) (Some r) =
       (fst (poll_loop w j d m pr'), t @ snd (poll_loop w j d m pr'))"
    using Suc.hyps(2) Suc.prems a by (intro Suc.hyps(1) r(3)) auto
  then obtain pr' t where t: "ready_proof pr' = None" "polls_issued t = m - Suc a"
     "delays t = replicate (m - Suc a) d"
     "poll_loop w j d (Suc a) (Some r) =
       (fst (poll_loop w j d m pr'), t @ snd (poll_loop w j d m pr'))" by blast
  have m: "m - a = Suc (m - Suc a)" using a by simp
  show ?case
    apply (rule exI[of _ pr'])
    apply (rule exI[of _ "[Sleep d, PostQueryProof j, ConsoleLog (ProofStatus st)] @ t"])
    using t by (simp add: st polls_issued_def m)
qed

lemma polls_issued_append [simp]: "polls_issued (s @ t) = polls_issued s + polls_issued t"
  by (simp add: polls_issued_def)

lemma delays_append [simp]: "delays (s @ t) = delays s @ delays t"
  by (induction s rule: delays.induct) simp_all

lemma awaitProof_poll_loop: "awaitProof w j = poll_loop w j 10000 0 None"
  by (simp add: awaitProof_def)

lemma ready_proof_None [simp]: "ready_proof None = None"
  by (simp add: ready_proof_def)

text \<open>The outcome of the loop when the polls before poll \<open>m + 1\<close> are pending.\<close>

lemma awaitProof_timeout:
  assumes "\<forall>k<10. pending_poll (queryProof w k)"
  shows "fst (awaitProof w j) = Inl ProofTimeout \<and> polls_issued (snd (awaitProof w j)) = 10
    \<and> delays (snd (awaitProof w j)) = replicate 10 10000"
proof -
  from assms have "\<forall>k. 0 \<le> k \<and> k < 10 \<longrightarrow> pending_poll (queryProof w k)" by simp
  from poll_loop_prefix[OF ready_proof_None _ _ this, where d=10000 and j=j]
  obtain pr' t where t: "ready_proof pr' = None" "polls_issued t = 10"
    "delays t = replicate 10 10000"
    "poll_loop w j 10000 0 None =
       (fst (poll_loop w j 10000 10 pr'), t @ snd (poll_loop w j 10000 10 pr'))"
    by auto
  show ?thesis
    using t by (simp add: awaitProof_poll_loop poll_loop_timeout[OF t(1)])
qed

lemma awaitProof_ready:
  assumes "m < 10" "\<forall>k<m. pending_poll (queryProof w k)"
    "queryProof w m = Resolves r" "ready_proof (Some r) = Some p"
  shows "fst (awaitProof w j) = Inr p \<and> polls_issued (snd (awaitProof w j)) = Suc m
    \<and> delays (snd (awaitProof w j)) = replicate (Suc m) 10000"
proof -
  from assms have "\<forall>k. 0 \<le> k \<and> k < m \<longrightarrow> pending_poll (queryProof w k)" by simp
  from poll_loop_prefix[OF ready_proof_None _ _ this, where d=10000 and j=j] assms(1)
  obtain pr' t where t: "ready_proof pr' = None" "polls_issued t = m"
    "delays t = replicate m 10000"
    "poll_loop w j 10000 0 None =
       (fst (poll_loop w j 10000 m pr'), t @ snd (poll_loop w j 10000 m pr'))"
    by auto
  from poll_loop_step[OF t(1) assms(1,3) ready_has_result[OF assms(4)], where d=10000 and j=j]
  obtain st where st: "poll_loop w j 10000 m pr' =
     (fst (poll_loop w j 10000 (Suc m) (Some r)),
      [Sleep 10000, PostQueryProof j, ConsoleLog (ProofStatus st)] @
      snd (poll_loop w j 10000 (Suc m) (Some r)))" by blast
  show ?thesis
    using t(2,3)
    by (simp add: awaitProof_poll_loop t(4) st poll_loop_ready[OF assms(4)]
          polls_issued_def replicate_append_same)
qed

lemma awaitProof_no_result:
  assumes "m < 10" "\<forall>k<m. pending_poll (queryProof w k)"
    "queryProof w m = Resolves r" "\<not> has_result r"
  shows "fst (awaitProof w j) = Inl TypeError \<and> polls_issued (snd (awaitProof w j)) = Suc m"
proof -
  from assms have "\<forall>k. 0 \<le> k \<and> k < m \<longrightarrow> pending_poll (queryProof w k)" by simp
  from poll_loop_prefix[OF ready_proof_None _ _ this, where d=10000 and j=j] assms(1)
  obtain pr' t where t: "ready_proof pr' = None" "polls_issued t = m"
    "poll_loop w j 10000 0 None =
       (fst (poll_loop w j 10000 m pr'), t @ snd (poll_loop w j 10000 m pr'))"
    by auto
  show ?thesis
    using t(2)
    by (simp add: awaitProof_poll_loop t(3) poll_loop_no_result[OF t(1) assms(1,3,4)]
          polls_issued_def)
qed

lemma awaitProof_rejects:
  assumes "m < 10" "\<forall>k<m. pending_poll (queryProof w k)" "queryProof w m = Rejects"
  shows "fst (awaitProof w j) = Inl HttpError \<and> polls_issued (snd (awaitProof w j)) = Suc m"
proof -
  from assms have "\<forall>k. 0 \<le> k \<and> k < m \<longrightarrow> pending_poll (queryProof w k)" by simp
  from poll_loop_prefix[OF ready_proof_None _ _ this, where d=10000 and j=j] assms(1)
  obtain pr' t where t: "ready_proof pr' = None" "polls_issued t = m"
    "poll_loop w j 10000 0 None =
       (fst (poll_loop w j 10000 m pr'), t @ snd (poll_loop w j 10000 m pr'))"
    by auto
  show ?thesis
    using t(2)
    by (simp add: awaitProof_poll_loop t(3) poll_loop_rejects[OF t(1) assms(1,3)]
          polls_issued_def)
qed

text \<open>The delay is a constant of the loop: every delay awaited is the one passed in.\<close>

lemma poll_loop_delays: "set (delays (snd (poll_loop w j d a pr))) \<subseteq> {d}"
proof (induction w j d a pr rule: poll_loop.induct)
  case (1 w jobId delay attempts proofResponse)
  show ?case
  proof (cases "ready_proof proofResponse")
    case (Some p)
    then show ?thesis by (simp add: poll_loop_ready)
  next
    case None
    show ?thesis
    proof (cases "10 \<le> attempts")
      case True
      with None show ?thesis by (simp add: poll_loop_timeout)
    next
      case False
      then have a: "attempts < 10" by simp
      show ?thesis
      proof (cases "queryProof w attempts")
        case Rejects
        with None a show ?thesis by (simp add: poll_loop_rejects)
      next
        case (Resolves r)
        show ?thesis
        proof (cases "has_result r")
          case False
          with None a Resolves show ?thesis by (simp add: poll_loop_no_result)
        next
          case True
          from poll_loop_step[OF None a Resolves True, where d=delay and j=jobId]
          obtain st where st: "poll_loop w jobId delay attempts proofResponse =
             (fst (poll_loop w jobId delay (Suc attempts) (Some r)),
              [Sleep delay, PostQueryProof jobId, ConsoleLog (ProofStatus st)] @
              snd (poll_loop w jobId delay (Suc attempts) (Some r)))" by blast
          have "set (delays (snd (poll_loop w jobId delay (attempts + 1) (Some r)))) \<subseteq> {delay}"
            using "1.IH"[OF None False] by simp
          then show ?thesis by (simp add: st)
        qed
      qed
    qed
  qed
qed

lemma awaitProof_delays: "set (delays (snd (awaitProof w j))) \<subseteq> {10000}"
  by (simp add: awaitProof_poll_loop poll_loop_delays)

subsection \<open>The poll schedule\<close>

text \<open>
  Claim C1: the delay before the first poll is 10000 ms and the delay before every later
  poll is 5000 ms, recomputed from the attempt counter on every iteration. The code
  computes \<^verbatim>\<open>delay\<close> once, on line 236, while \<^verbatim>\<open>attempts\<close> is 0, so every delay
  is 10000 ms (\<open>awaitProof_delays\<close>). The theorem runs the loop where the proof is ready
  on the third poll: the three delays awaited are 10000, 10000 and 10000, where the
  claim says 10000, 5000 and 5000.
\<close>

theorem awaitProof_delays_example:
  "delays (snd (awaitProof world_ok (Some ''job1''))) = [10000, 10000, 10000]"
  by (simp add: awaitProof_def poll_loop.simps ready_proof_def log_status_def io_defs
        world_ok_def pending_def complete_def)

subsection \<open>The number of polls\<close>

text \<open>
  Claim C3 as stated fails: where every poll is answered with a body that has no
  \<^verbatim>\<open>result\<close>, no response carries a ready proof, and yet the loop stops after one
  poll, with a \<^verbatim>\<open>TypeError\<close> and not with the timeout; and where the request of the
  first poll fails, there is no response at all, and the loop stops after one poll with
  the error of the request.
\<close>

theorem awaitProof_error_body_example:
  "ready_proof (Some error_body) = None \<and>
   awaitProof world_error_only (Some ''job1'') =
     (Inl TypeError, [Sleep 10000, PostQueryProof (Some ''job1'')]) \<and>
   awaitProof world_poll_rejects (Some ''job1'') =
     (Inl HttpError, [Sleep 10000, PostQueryProof (Some ''job1'')])"
  by (simp add: awaitProof_def poll_loop.simps ready_proof_def log_status_def io_defs
        world_error_only_def world_poll_rejects_def world_ok_def error_body_def)

text \<open>
  Claim C3, amended: if each of the ten polls resolves with a body that has a result
  object and no ready proof, the loop issues exactly 10 polls and then fails with
  ProofTimeout; and if poll \<open>m + 1\<close> (at most the tenth) resolves with a ready proof, the
  polls before it having resolved with a result object and no ready proof, the loop
  returns that proof after exactly \<open>m + 1\<close> polls.
\<close>

theorem awaitProof_poll_count:
  "((\<forall>k<10. pending_poll (queryProof w k)) \<longrightarrow>
      fst (awaitProof w j) = Inl ProofTimeout \<and> polls_issued (snd (awaitProof w j)) = 10) \<and>
   (m < 10 \<and> (\<forall>k<m. pending_poll (queryProof w k)) \<and> queryProof w m = Resolves r \<and>
    ready_proof (Some r) = Some p \<longrightarrow>
      fst (awaitProof w j) = Inr p \<and> polls_issued (snd (awaitProof w j)) = Suc m)"
  using awaitProof_timeout[of w j] awaitProof_ready[of m w r p j] by blast

theorem awaitProof_poll_count_witness:
  "fst (awaitProof world_never_ready (Some ''job1'')) = Inl ProofTimeout \<and>
   polls_issued (snd (awaitProof world_never_ready (Some ''job1''))) = 10 \<and>
   fst (awaitProof world_ok (Some ''job1'')) = Inr ''AQID'' \<and>
   polls_issued (snd (awaitProof world_ok (Some ''job1''))) = 3"
proof -
  have 1: "\<forall>k<10. pending_poll (queryProof world_never_ready k)"
    by (simp add: world_never_ready_def world_ok_def pending_poll_def has_result_def
          ready_proof_def pending_def)
  have 2: "(2::nat) < 10 \<and> (\<forall>k<2. pending_poll (queryProof world_ok k)) \<and>
     queryProof world_ok 2 = Resolves complete \<and> ready_proof (Some complete) = Some ''AQID''"
    by (simp add: world_ok_def pending_poll_def has_result_def
          ready_proof_def pending_def complete_def)
  show ?thesis
    using 1 2 awaitProof_poll_count[of world_never_ready "Some ''job1''" 2 complete "''AQID''"]
      awaitProof_poll_count[of world_ok "Some ''job1''" 2 complete "''AQID''"]
    by simp
qed

subsection \<open>The actions of the poll loop\<close>



lemma poll_loop_actions: "list_all is_poll_action (snd (poll_loop w j d a pr))"
proof (induction w j d a pr rule: poll_loop.induct)
  case (1 w jobId delay attempts proofResponse)
  show ?case
  proof (cases "ready_proof proofResponse")
    case (Some p)
    then show ?thesis by (simp add: poll_loop_ready)
  next
    case None
    show ?thesis
    proof (cases "10 \<le> attempts")
      case True
      with None show ?thesis by (simp add: poll_loop_timeout)
    next
      case False
      then have a: "attempts < 10" by simp
      show ?thesis
      proof (cases "queryProof w attempts")
        case Rejects
        with None a show ?thesis by (simp add: poll_loop_rejects)
      next
        case (Resolves r)
        show ?thesis
        proof (cases "has_result r")
          case False
          with None a Resolves show ?thesis by (simp add: poll_loop_no_result)
        next
          case True
          from poll_loop_step[OF None a Resolves True, where d=delay and j=jobId]
          obtain st where st: "poll_loop w jobId delay attempts proofResponse =
             (fst (poll_loop w jobId delay (Suc attempts) (Some r)),
              [Sleep delay, PostQueryProof jobId, ConsoleLog (ProofStatus st)] @
              snd (poll_loop w jobId delay (Suc attempts) (Some r)))" by blast
          have "list_all is_poll_action (snd (poll_loop w jobId delay (attempts + 1) (Some r)))"
            using "1.IH"[OF None False] by simp
          then show ?thesis by (simp add: st)
        qed
      qed
    qed
  qed
qed

lemma awaitProof_actions: "awaitProof w j = (x, t) \<Longrightarrow> list_all is_poll_action t"
  using poll_loop_actions[of w j 10000 0 None] by (simp add: awaitProof_poll_loop)

lemma poll_actions_filter:
  "list_all is_poll_action t \<Longrightarrow>
   filter is_submission t = [] \<and> filter is_estimate t = [] \<and> filter is_confirmed t = [] \<and>
   filter is_dropped t = [] \<and> filter is_error_report t = []"
proof (induction t)
  case Nil
  then show ?case by simp
next
  case (Cons x t)
  then show ?case by (cases x rule: is_poll_action.cases) simp_all
qed

subsection \<open>The submission in closed form\<close>

lemma submitProof_eq:
  "submitProof w dst p =
     (let b = ''0x'' @ toString_hex (Buffer_from_base64 p) in
      case estimateGas w of
        Rejects \<Rightarrow> (Inl GasEstimationError, [EstimateGas dst 0 b])
      | Resolves g \<Rightarrow>
          (case setValueFromSource w of
             Rejects \<Rightarrow> (Inl TransactionError, [EstimateGas dst 0 b, SendTransaction dst 0 b g])
           | Resolves tx \<Rightarrow>
               (case wait w of
                  Rejects \<Rightarrow>
                    (Inl ConfirmationError,
                     [EstimateGas dst 0 b, SendTransaction dst 0 b g, WaitTransaction tx])
                | Resolves rc \<Rightarrow>
                    (Inr (),
                     [EstimateGas dst 0 b, SendTransaction dst 0 b g, WaitTransaction tx,
                      ConsoleLog (TransactionConfirmed (gasUsed rc))]))))"
  by (simp add: submitProof_def io_defs Let_def split: settled.splits)

subsection \<open>The outcomes of the relay routine\<close>



lemma handleValueSetEvent_cases:
  obtains
    (dropped)
      "destination_chain w CHAINS (toString (destinationChainId (args dat))) = None"
      "handleValueSetEvent config CHAINS w dat =
         (Inr (), [ConsoleError (NoConfiguration (toString (destinationChainId (args dat))))])"
  | (request_failed) dst e where
      "destination_chain w CHAINS (toString (destinationChainId (args dat))) = Some dst"
      "handleValueSetEvent config CHAINS w dat = (Inl e, [request_action config dat])"
  | (poll_failed) dst j e tp where
      "destination_chain w CHAINS (toString (destinationChainId (args dat))) = Some dst"
      "awaitProof w j = (Inl e, tp)"
      "handleValueSetEvent config CHAINS w dat = (Inl e, request_action config dat # tp)"
  | (submitted) dst j p tp where
      "destination_chain w CHAINS (toString (destinationChainId (args dat))) = Some dst"
      "awaitProof w j = (Inr p, tp)"
      "handleValueSetEvent config CHAINS w dat =
         (fst (submitProof w dst p),
          request_action config dat # tp @ snd (submitProof w dst p))"
proof (cases "destination_chain w CHAINS (toString (destinationChainId (args dat)))")
  case None
  then show ?thesis
    by (intro dropped) (simp_all add: handleValueSetEvent_def io_defs)
next
  case (Some dst)
  show ?thesis
  proof (cases "requestProof w")
    case Rejects
    with Some show ?thesis
      by (intro request_failed[of dst HttpError])
         (simp_all add: handleValueSetEvent_def io_defs request_action_def)
  next
    case (Resolves pr)
    show ?thesis
    proof (cases "req_status pr = 200")
      case False
      with Some Resolves show ?thesis
        by (intro request_failed[of dst "ProofRequestFailed (req_status pr)"])
           (simp_all add: handleValueSetEvent_def io_defs request_action_def)
    next
      case True
      show ?thesis
      proof (cases "req_data pr")
        case None
        with Some Resolves True show ?thesis
          by (intro request_failed[of dst TypeError])
             (simp_all add: handleValueSetEvent_def io_defs request_action_def)
      next
        case (Some b)
        note body = this
        obtain x tp where ap: "awaitProof w (req_result b) = (x, tp)"
          by (cases "awaitProof w (req_result b)")
        show ?thesis
        proof (cases x)
          case (Inl e)
          with \<open>destination_chain w CHAINS _ = Some dst\<close> Resolves True body ap show ?thesis
            by (intro poll_failed[of dst "req_result b" e tp])
               (simp_all add: handleValueSetEvent_def io_defs request_action_def)
        next
          case (Inr p)
          with \<open>destination_chain w CHAINS _ = Some dst\<close> Resolves True body ap show ?thesis
            by (intro submitted[of dst "req_result b" p tp])
               (simp_all add: handleValueSetEvent_def io_defs request_action_def
                  split: prod.splits)
        qed
      qed
    qed
  qed
qed

subsection \<open>The outcomes of the callback\<close>

lemma describe_event_actions:
  "describe_event w a lg = (x, t) \<Longrightarrow>
   (t = [GetBlock (log_blockNumber lg)] \<and> x = Inl RpcError) \<or>
   t = [GetBlock (log_blockNumber lg), GetTransactionReceipt (log_transactionHash lg)]"
  by (auto simp: describe_event_def io_defs
        split: settled.splits option.splits if_splits)

lemma on_ValueSet_cases:
  obtains
    (duplicate)
      "eventId lg \<in> reg"
      "on_ValueSet config CHAINS w reg a lg = (Inr reg, [])"
  | (processing_failed) e t1 where
      "eventId lg \<notin> reg"
      "describe_event w a lg = (Inl e, t1)"
      "on_ValueSet config CHAINS w reg a lg = (Inr reg, t1 @ [ConsoleError (ErrorProcessing e)])"
  | (handling_failed) pos t1 e t2 where
      "eventId lg \<notin> reg"
      "describe_event w a lg = (Inr pos, t1)"
      "handleValueSetEvent config CHAINS w (data_of a lg pos) = (Inl e, t2)"
      "on_ValueSet config CHAINS w reg a lg =
         (Inr reg, t1 @ t2 @ [ConsoleError (ErrorHandling e)])"
  | (handled) pos t1 t2 where
      "eventId lg \<notin> reg"
      "describe_event w a lg = (Inr pos, t1)"
      "handleValueSetEvent config CHAINS w (data_of a lg pos) = (Inr (), t2)"
      "on_ValueSet config CHAINS w reg a lg = (Inr (insert (eventId lg) reg), t1 @ t2)"
proof (cases "eventId lg \<in> reg")
  case True
  then show ?thesis
    by (intro duplicate) (simp_all add: on_ValueSet_def io_defs)
next
  case False
  obtain x t1 where d: "describe_event w a lg = (x, t1)"
    by (cases "describe_event w a lg")
  show ?thesis
  proof (cases x)
    case (Inl e)
    with False d show ?thesis
      by (intro processing_failed[of e t1])
         (simp_all add: on_ValueSet_def callback_rest_def processing_error_def io_defs)
  next
    case (Inr pos)
    note pos = this
    obtain y t2 where h: "handleValueSetEvent config CHAINS w (data_of a lg pos) = (y, t2)"
      by (cases "handleValueSetEvent config CHAINS w (data_of a lg pos)")
    show ?thesis
    proof (cases y)
      case (Inl e)
      with False d pos h show ?thesis
        by (intro handling_failed[of pos t1 e t2])
           (simp_all add: on_ValueSet_def callback_rest_def handling_error_def io_defs)
    next
      case (Inr u)
      with False d pos h show ?thesis
        by (intro handled[of pos t1 t2])
           (simp_all add: on_ValueSet_def callback_rest_def handling_error_def io_defs)
    qed
  qed
qed

lemma awaitProof_quiet:
  assumes "awaitProof w j = (x, t)"
  shows "\<not> list_ex is_submission t" "\<not> list_ex is_estimate t" "\<not> list_ex is_confirmed t"
    "\<not> list_ex is_dropped t" "\<not> list_ex is_error_report t" "filter is_submission t = []"
  using poll_actions_filter[OF awaitProof_actions[OF assms]]
  by (simp_all add: list_ex_iff filter_empty_conv)

lemma describe_event_quiet:
  assumes "describe_event w a lg = (x, t)"
  shows "\<not> list_ex is_submission t" "\<not> list_ex is_estimate t" "\<not> list_ex is_confirmed t"
    "\<not> list_ex is_dropped t" "\<not> list_ex is_error_report t" "filter is_submission t = []"
    "\<not> list_ex is_network_call t"
  using describe_event_actions[OF assms] by auto

text \<open>What the trace of the relay routine tells about its run.\<close>

lemma handler_summary:
  assumes "handleValueSetEvent config CHAINS w dat = (r, t)"
  shows "length (filter is_submission t) \<le> 1"
    and "\<not> list_ex is_error_report t"
    and "list_ex is_dropped t \<longleftrightarrow>
           destination_chain w CHAINS (toString (destinationChainId (args dat))) = None"
    and "list_ex is_dropped t \<longrightarrow> r = Inr () \<and> \<not> list_ex is_network_call t"
    and "list_ex is_confirmed t \<longrightarrow>
           r = Inr () \<and> list_ex is_submission t \<and> (\<exists>rc. wait w = Resolves rc)"
    and "r = Inr () \<longleftrightarrow> list_ex is_confirmed t \<or> list_ex is_dropped t"
    and "estimateGas w = Rejects \<longrightarrow> \<not> list_ex is_submission t"
    and "estimateGas w = Rejects \<longrightarrow> list_ex is_estimate t \<longrightarrow> r = Inl GasEstimationError"
  using assms
  by (cases rule: handleValueSetEvent_cases[where CHAINS=CHAINS and dat=dat and config=config and w=w];
      auto simp: submitProof_eq Let_def request_action_def
        dest: awaitProof_quiet split: settled.splits)+

text \<open>What the trace of the callback tells about its run.\<close>

lemma callback_registry:
  assumes "on_ValueSet config CHAINS w reg a lg = (r, t)"
  shows "(\<exists>reg'. r = Inr reg') \<and>
    (eventId lg \<in> reg \<longrightarrow> r = Inr reg \<and> t = []) \<and>
    (eventId lg \<notin> reg \<longrightarrow>
           r = Inr (if list_ex is_confirmed t \<or> list_ex is_dropped t
                    then insert (eventId lg) reg else reg)) \<and>
    (list_ex is_error_report t \<longrightarrow> r = Inr reg)"
proof (cases rule: on_ValueSet_cases[of lg reg config CHAINS w a])
  case duplicate
  with assms show ?thesis by auto
next
  case (processing_failed e t1)
  with assms describe_event_quiet[OF processing_failed(2)] show ?thesis by auto
next
  case (handling_failed pos t1 e t2)
  with assms describe_event_quiet[OF handling_failed(2)]
    handler_summary(2,6)[OF handling_failed(3)]
  show ?thesis by auto
next
  case (handled pos t1 t2)
  with assms describe_event_quiet[OF handled(2)] handler_summary(2,6)[OF handled(3)]
  show ?thesis by auto
qed

lemma callback_trace:
  assumes "on_ValueSet config CHAINS w reg a lg = (r, t)"
  shows "(list_ex is_confirmed t \<longrightarrow>
           list_ex is_submission t \<and> (\<exists>rc. wait w = Resolves rc) \<and>
           \<not> list_ex is_error_report t) \<and>
    (list_ex is_dropped t \<longrightarrow>
           destination_chain w CHAINS (toString (destinationChainId a)) = None \<and>
           \<not> list_ex is_network_call t \<and> \<not> list_ex is_error_report t) \<and>
    (eventId lg \<notin> reg \<longrightarrow> \<not> list_ex is_confirmed t \<longrightarrow> \<not> list_ex is_dropped t \<longrightarrow>
           list_ex is_error_report t) \<and>
    length (filter is_submission t) \<le> 1"
proof (cases rule: on_ValueSet_cases[of lg reg config CHAINS w a])
  case duplicate
  with assms show ?thesis by auto
next
  case (processing_failed e t1)
  with assms describe_event_quiet[OF processing_failed(2)] show ?thesis by auto
next
  case (handling_failed pos t1 e t2)
  with assms describe_event_quiet[OF handling_failed(2)]
    handler_summary(1-6)[OF handling_failed(3)]
  show ?thesis by (auto simp: data_of_def)
next
  case (handled pos t1 t2)
  with assms describe_event_quiet[OF handled(2)] handler_summary(1-6)[OF handled(3)]
  show ?thesis by (auto simp: data_of_def)
qed

lemma callback_gas:
  assumes "on_ValueSet config CHAINS w reg a lg = (r, t)" "estimateGas w = Rejects"
  shows "\<not> list_ex is_submission t \<and>
    (list_ex is_estimate t \<longrightarrow>
           r = Inr reg \<and> last t = ConsoleError (ErrorHandling GasEstimationError))"
proof (cases rule: on_ValueSet_cases[of lg reg config CHAINS w a])
  case duplicate
  with assms show ?thesis by auto
next
  case (processing_failed e t1)
  with assms describe_event_quiet[OF processing_failed(2)] show ?thesis by auto
next
  case (handling_failed pos t1 e t2)
  with assms describe_event_quiet[OF handling_failed(2)]
    handler_summary(7,8)[OF handling_failed(3)]
  show ?thesis by auto
next
  case (handled pos t1 t2)
  with assms describe_event_quiet[OF handled(2)] handler_summary(7,8)[OF handled(3)]
  show ?thesis by auto
qed

subsection \<open>The example runs\<close>

lemmas eval_defs =
  on_ValueSet_def callback_rest_def describe_event_def handleValueSetEvent_def
  destination_chain_def submitProof_def awaitProof_def data_of_def eventId_def
  handling_error_def processing_error_def ready_proof_def log_status_def
  parseInt_def digit_value_def digits_def Buffer_from_base64_def unbase64_def
  hex_table_def toString.simps poll_loop.simps io_defs Let_def

lemmas example_defs =
  optimism_def base_def pending_def complete_def error_body_def world_ok_def
  world_never_ready_def world_error_body_def world_error_only_def world_gas_fails_def
  world_poll_rejects_def world_rpc_fails_def world_wait_fails_def
  world_request_fails_def args_to_base_def args_to_unknown_def log1_def log2_def



lemma eventId_log1: "eventId log1 = ''0xb1-0xt1-3''"
  by (simp add: eval_defs example_defs)

text \<open>The end-to-end scenario of the specification: two pending polls, then the proof;
  three polls, one submission, and the identity recorded.\<close>

lemma relayed_example:
  "on_ValueSet optimism [optimism, base] world_ok {} args_to_base log1 =
     (Inr {''0xb1-0xt1-3''},
      [GetBlock 100, GetTransactionReceipt ''0xt1'', PostRequestProof 11155420 84532 100 7] @
      polls_of_example @
      [EstimateGas base 0 ''0x010203'', SendTransaction base 0 ''0x010203'' 21000,
       WaitTransaction ''0xtx'', ConsoleLog (TransactionConfirmed 20000)])"
  by (simp add: eval_defs example_defs polls_of_example_def)

lemma dropped_example:
  "on_ValueSet optimism [optimism, base] world_ok {} args_to_unknown log1 =
     (Inr {''0xb1-0xt1-3''},
      [GetBlock 100, GetTransactionReceipt ''0xt1'', ConsoleError (NoConfiguration ''5'')])"
  by (simp add: eval_defs example_defs)

lemma gas_fails_example:
  "on_ValueSet optimism [optimism, base] world_gas_fails {} args_to_base log1 =
     (Inr {},
      [GetBlock 100, GetTransactionReceipt ''0xt1'', PostRequestProof 11155420 84532 100 7] @
      polls_of_example @
      [EstimateGas base 0 ''0x010203'', ConsoleError (ErrorHandling GasEstimationError)])"
  by (simp add: eval_defs example_defs polls_of_example_def)

lemma wait_fails_example:
  "on_ValueSet optimism [optimism, base] world_wait_fails {} args_to_base log1 =
     (Inr {},
      [GetBlock 100, GetTransactionReceipt ''0xt1'', PostRequestProof 11155420 84532 100 7] @
      polls_of_example @
      [EstimateGas base 0 ''0x010203'', SendTransaction base 0 ''0x010203'' 21000,
       WaitTransaction ''0xtx'', ConsoleError (ErrorHandling ConfirmationError)])"
  by (simp add: eval_defs example_defs polls_of_example_def)

lemma request_fails_example:
  "on_ValueSet optimism [optimism, base] world_request_fails {} args_to_base log1 =
     (Inr {},
      [GetBlock 100, GetTransactionReceipt ''0xt1'', PostRequestProof 11155420 84532 100 7,
       ConsoleError (ErrorHandling HttpError)])"
  by (simp add: eval_defs example_defs)

subsection \<open>Decimal strings\<close>

lemma toString_nonempty: "toString n \<noteq> []"
  by (subst toString.simps) simp

lemma digits_inj: "m < 10 \<Longrightarrow> n < 10 \<Longrightarrow> digits ! m = digits ! n \<Longrightarrow> m = n"
proof -
  have "distinct digits" by (simp add: digits_def)
  moreover have "length digits = 10" by (simp add: digits_def)
  ultimately show "m < 10 \<Longrightarrow> n < 10 \<Longrightarrow> digits ! m = digits ! n \<Longrightarrow> m = n"
    by (simp add: nth_eq_iff_index_eq)
qed

lemma toString_inj: "toString m = toString n \<Longrightarrow> m = n"
proof (induction m arbitrary: n rule: toString.induct)
  case (1 m)
  show ?case
  proof (cases "m < 10")
    case True
    then have m: "toString m = [digits ! m]" by (subst toString.simps) simp
    show ?thesis
    proof (cases "n < 10")
      case True
      then have "toString n = [digits ! n]" by (subst toString.simps) simp
      with m "1.prems" \<open>m < 10\<close> True show ?thesis by (simp add: digits_inj)
    next
      case False
      then have "toString n = toString (n div 10) @ [digits ! (n mod 10)]"
        by (subst toString.simps) simp
      with m "1.prems" toString_nonempty[of "n div 10"] show ?thesis by (cases "toString (n div 10)") simp_all
    qed
  next
    case False
    then have m: "toString m = toString (m div 10) @ [digits ! (m mod 10)]"
      by (subst toString.simps) simp
    show ?thesis
    proof (cases "n < 10")
      case True
      then have "toString n = [digits ! n]" by (subst toString.simps) simp
      with m "1.prems" toString_nonempty[of "m div 10"] show ?thesis by (cases "toString (m div 10)") simp_all
    next
      case nf: False
      then have "toString n = toString (n div 10) @ [digits ! (n mod 10)]"
        by (subst toString.simps) simp
      with m "1.prems" have e: "toString (m div 10) = toString (n div 10)"
        "digits ! (m mod 10) = digits ! (n mod 10)" by simp_all
      from "1.IH"[OF False e(1)] have "m div 10 = n div 10" .
      moreover from e(2) have "m mod 10 = n mod 10" by (simp add: digits_inj)
      ultimately show ?thesis by (metis div_mult_mod_eq)
    qed
  qed
qed

lemma destination_chain_None:
  "destination_chain w CHAINS s = None \<longleftrightarrow>
   (\<forall>c \<in> set CHAINS. Number_toString w (chainId c) \<noteq> s)"
  by (auto simp: destination_chain_def find_None_iff)

text \<open>Where the configured chain ids print as their decimal digits (integers below
  \<open>2 ^ 53\<close>), the strings match exactly when the numbers are equal.\<close>

lemma destination_chain_None_decimal:
  assumes "\<forall>c \<in> set CHAINS. Number_toString w (chainId c) = toString (chainId c)"
  shows "destination_chain w CHAINS (toString d) = None \<longleftrightarrow>
         (\<forall>c \<in> set CHAINS. chainId c \<noteq> d)"
  using assms by (auto simp: destination_chain_None dest: toString_inj)

subsection \<open>The registry\<close>

text \<open>
  Claim C2 as stated fails for a dropped event: where the destination chain id (5)
  resolves to no configured chain, the routine logs and returns, and the callback adds
  the identity to the registry.
\<close>

theorem dropped_event_is_recorded:
  "destination_chain world_ok [optimism, base]
     (toString (destinationChainId args_to_unknown)) = None \<and>
   snd (on_ValueSet optimism [optimism, base] world_ok {} args_to_unknown log1) =
     [GetBlock 100, GetTransactionReceipt ''0xt1'', ConsoleError (NoConfiguration ''5'')] \<and>
   eventId log1 \<in>
     registry_after {} (on_ValueSet optimism [optimism, base] world_ok {} args_to_unknown log1)"
  by (simp add: dropped_example registry_after_def eventId_log1)
     (simp add: eval_defs example_defs)

text \<open>
  Claim C2, amended: for every event that is not yet in the registry, the identity is
  added exactly when the relay routine returns without throwing, that is after the relay
  attempt fully succeeds (the confirmation line is logged, so the transaction was sent
  and its confirmation awaited) and also after the event is dropped because its
  destination resolves to no configured chain; after every other attempt an error is
  logged and the identity remains absent, so a redelivery is retried.
\<close>

theorem registry_after_attempt:
  assumes "on_ValueSet config CHAINS w reg a lg = (r, t)" and "eventId lg \<notin> reg"
  shows "registry_after reg (r, t) =
           (if list_ex is_confirmed t \<or> list_ex is_dropped t
            then insert (eventId lg) reg else reg) \<and>
         (list_ex is_confirmed t \<longrightarrow>
            list_ex is_submission t \<and> (\<exists>rc. wait w = Resolves rc)) \<and>
         (list_ex is_dropped t \<longrightarrow>
            destination_chain w CHAINS (toString (destinationChainId a)) = None) \<and>
         (\<not> list_ex is_confirmed t \<and> \<not> list_ex is_dropped t \<longrightarrow>
            list_ex is_error_report t \<and> eventId lg \<notin> registry_after reg (r, t))"
  using callback_registry[OF assms(1)] callback_trace[OF assms(1)] assms(2)
  by (simp add: registry_after_def)

theorem registry_after_attempt_witness:
  "registry_after {} (on_ValueSet optimism [optimism, base] world_ok {} args_to_base log1) =
     {eventId log1} \<and>
   registry_after {} (on_ValueSet optimism [optimism, base] world_ok {} args_to_unknown log1) =
     {eventId log1} \<and>
   eventId log1 \<notin>
     registry_after {} (on_ValueSet optimism [optimism, base] world_gas_fails {} args_to_base log1)"
proof -
  have 0: "eventId log1 \<notin> {}" by simp
  have 1: "list_ex is_confirmed
      (snd (on_ValueSet optimism [optimism, base] world_ok {} args_to_base log1))"
    by (simp add: relayed_example polls_of_example_def)
  have 2: "list_ex is_dropped
      (snd (on_ValueSet optimism [optimism, base] world_ok {} args_to_unknown log1))"
    by (simp add: dropped_example)
  have 3: "\<not> list_ex is_confirmed
      (snd (on_ValueSet optimism [optimism, base] world_gas_fails {} args_to_base log1)) \<and>
    \<not> list_ex is_dropped
      (snd (on_ValueSet optimism [optimism, base] world_gas_fails {} args_to_base log1))"
    by (simp add: gas_fails_example polls_of_example_def)
  from registry_after_attempt[OF prod.collapse[symmetric] 0, of optimism "[optimism, base]"
      world_ok args_to_base]
    registry_after_attempt[OF prod.collapse[symmetric] 0, of optimism "[optimism, base]"
      world_ok args_to_unknown]
    registry_after_attempt[OF prod.collapse[symmetric] 0, of optimism "[optimism, base]"
      world_gas_fails args_to_base]
    1 2 3
  show ?thesis by simp
qed

subsection \<open>An unresolvable destination\<close>

text \<open>The match is one of strings: a destination of 1152921504606847000 finds the
  configuration whose chain id is \<open>2 ^ 60\<close> (1152921504606846976), printed rounded.\<close>

lemma rounded_chain_id_matches:
  "destination_chain world_rounding [big_chain] (toString 1152921504606847000) = Some big_chain"
  by (simp add: destination_chain_def world_rounding_def big_chain_def toString.simps digits_def)

text \<open>
  Claim C5: for every event whose destination chain id matches no configured chain, the
  relay routine reports the missing configuration (the \<^verbatim>\<open>console.error\<close> of line 184 is
  its only action) and makes no call to the proof service or to a destination chain. To
  match is what the lookup of lines 179-181 tests: the string of the configured chain id
  is the string of the destination's; and where the configured chain ids print as their
  decimal digits (integers below \<open>2 ^ 53\<close>), it is that the two numbers are equal.
\<close>

theorem unconfigured_destination:
  "((\<forall>c \<in> set CHAINS.
       Number_toString w (chainId c) \<noteq> toString (destinationChainId (args dat))) \<longrightarrow>
      handleValueSetEvent config CHAINS w dat =
        (Inr (), [ConsoleError (NoConfiguration (toString (destinationChainId (args dat))))]) \<and>
      filter is_network_call (snd (handleValueSetEvent config CHAINS w dat)) = []) \<and>
   ((\<forall>c \<in> set CHAINS. Number_toString w (chainId c) = toString (chainId c)) \<and>
    (\<forall>c \<in> set CHAINS. chainId c \<noteq> destinationChainId (args dat)) \<longrightarrow>
      handleValueSetEvent config CHAINS w dat =
        (Inr (), [ConsoleError (NoConfiguration (toString (destinationChainId (args dat))))]) \<and>
      filter is_network_call (snd (handleValueSetEvent config CHAINS w dat)) = [])"
proof -
  have "handleValueSetEvent config CHAINS w dat =
        (Inr (), [ConsoleError (NoConfiguration (toString (destinationChainId (args dat))))]) \<and>
      filter is_network_call (snd (handleValueSetEvent config CHAINS w dat)) = []"
    if "destination_chain w CHAINS (toString (destinationChainId (args dat))) = None"
    using that by (simp add: handleValueSetEvent_def io_defs)
  note drop = this
  have 1: "destination_chain w CHAINS (toString (destinationChainId (args dat))) = None"
    if "\<forall>c \<in> set CHAINS.
          Number_toString w (chainId c) \<noteq> toString (destinationChainId (args dat))"
    using that by (simp only: destination_chain_None)
  have 2: "destination_chain w CHAINS (toString (destinationChainId (args dat))) = None"
    if "\<forall>c \<in> set CHAINS. Number_toString w (chainId c) = toString (chainId c)"
      "\<forall>c \<in> set CHAINS. chainId c \<noteq> destinationChainId (args dat)"
    using that(2) by (simp only: destination_chain_None_decimal[OF that(1)])
  have A: "(\<forall>c \<in> set CHAINS.
       Number_toString w (chainId c) \<noteq> toString (destinationChainId (args dat))) \<longrightarrow>
      handleValueSetEvent config CHAINS w dat =
        (Inr (), [ConsoleError (NoConfiguration (toString (destinationChainId (args dat))))]) \<and>
      filter is_network_call (snd (handleValueSetEvent config CHAINS w dat)) = []"
  proof (rule impI)
    assume "\<forall>c \<in> set CHAINS.
      Number_toString w (chainId c) \<noteq> toString (destinationChainId (args dat))"
    then show "handleValueSetEvent config CHAINS w dat =
        (Inr (), [ConsoleError (NoConfiguration (toString (destinationChainId (args dat))))]) \<and>
      filter is_network_call (snd (handleValueSetEvent config CHAINS w dat)) = []"
      by (rule drop[OF 1])
  qed
  have B: "(\<forall>c \<in> set CHAINS. Number_toString w (chainId c) = toString (chainId c)) \<and>
    (\<forall>c \<in> set CHAINS. chainId c \<noteq> destinationChainId (args dat)) \<longrightarrow>
      handleValueSetEvent config CHAINS w dat =
        (Inr (), [ConsoleError (NoConfiguration (toString (destinationChainId (args dat))))]) \<and>
      filter is_network_call (snd (handleValueSetEvent config CHAINS w dat)) = []"
  proof (rule impI, erule conjE)
    assume "\<forall>c \<in> set CHAINS. Number_toString w (chainId c) = toString (chainId c)"
      "\<forall>c \<in> set CHAINS. chainId c \<noteq> destinationChainId (args dat)"
    then show "handleValueSetEvent config CHAINS w dat =
        (Inr (), [ConsoleError (NoConfiguration (toString (destinationChainId (args dat))))]) \<and>
      filter is_network_call (snd (handleValueSetEvent config CHAINS w dat)) = []"
      by (rule drop[OF 2])
  qed
  from A B show ?thesis by (rule conjI)
qed

theorem unconfigured_destination_witness:
  "handleValueSetEvent optimism [optimism, base] world_ok (data_of args_to_unknown log1 7) =
     (Inr (), [ConsoleError (NoConfiguration ''5'')]) \<and>
   filter is_network_call
     (snd (handleValueSetEvent optimism [optimism, base] world_ok
        (data_of args_to_unknown log1 7))) = []"
proof -
  have 1: "\<forall>c \<in> set [optimism, base].
      Number_toString world_ok (chainId c) \<noteq>
      toString (destinationChainId (args (data_of args_to_unknown log1 7)))"
    by (simp add: example_defs data_of_def toString.simps digits_def)
  have 2: "(\<forall>c \<in> set [optimism, base].
       Number_toString world_ok (chainId c) = toString (chainId c)) \<and>
     (\<forall>c \<in> set [optimism, base].
       chainId c \<noteq> destinationChainId (args (data_of args_to_unknown log1 7)))"
    by (simp add: example_defs data_of_def)
  have 3: "toString (destinationChainId (args (data_of args_to_unknown log1 7))) = ''5''"
    by (simp add: example_defs data_of_def toString.simps digits_def)
  from unconfigured_destination[of "[optimism, base]" world_ok
      "data_of args_to_unknown log1 7" optimism, THEN conjunct1, THEN mp, OF 1]
    unconfigured_destination[of "[optimism, base]" world_ok
      "data_of args_to_unknown log1 7" optimism, THEN conjunct2, THEN mp, OF 2]
  show ?thesis by (simp only: 3)
qed

subsection \<open>A failing gas estimation\<close>

text \<open>
  Claim C7: for every relay attempt in which the gas estimation for the destination call
  throws, no transaction is sent, the error of the estimation (a SubmissionError) is
  reported by the \<^verbatim>\<open>console.error\<close> of the inner \<^verbatim>\<open>catch\<close>, the last action of the
  callback, and the identity is not in the registry afterwards.
\<close>

theorem gas_estimation_failure:
  assumes "on_ValueSet config CHAINS w reg a lg = (r, t)"
    and "estimateGas w = Rejects" and "list_ex is_estimate t"
  shows "\<not> list_ex is_submission t \<and>
         last t = ConsoleError (ErrorHandling GasEstimationError) \<and>
         registry_after reg (r, t) = reg \<and> eventId lg \<notin> registry_after reg (r, t)"
  using callback_gas[OF assms(1,2)] callback_registry[OF assms(1)] assms(3)
  by (auto simp: registry_after_def)

theorem gas_estimation_failure_witness:
  "\<not> list_ex is_submission
       (snd (on_ValueSet optimism [optimism, base] world_gas_fails {} args_to_base log1)) \<and>
   last (snd (on_ValueSet optimism [optimism, base] world_gas_fails {} args_to_base log1)) =
     ConsoleError (ErrorHandling GasEstimationError) \<and>
   registry_after {} (on_ValueSet optimism [optimism, base] world_gas_fails {} args_to_base log1)
     = {}"
proof -
  have 1: "estimateGas world_gas_fails = Rejects" by (simp add: world_gas_fails_def)
  have 2: "list_ex is_estimate
     ([GetBlock 100, GetTransactionReceipt ''0xt1'', PostRequestProof 11155420 84532 100 7] @
      polls_of_example @
      [EstimateGas base 0 ''0x010203'', ConsoleError (ErrorHandling GasEstimationError)])"
    by (simp add: polls_of_example_def)
  from gas_estimation_failure[OF gas_fails_example 1 2]
  show ?thesis by (simp add: gas_fails_example)
qed

subsection \<open>Errors stay inside the callback\<close>

text \<open>
  Claim C9: every error raised while one event is handled is caught and logged at the
  callback: the callback itself never throws (the listener and the subscription go on);
  an error raised before the relay routine is logged by the outer \<^verbatim>\<open>catch\<close>, one
  raised by the relay routine by the inner \<^verbatim>\<open>catch\<close>; and where an error was logged
  the registry is unchanged, so the deliveries that follow are handled exactly as if the
  failed one had not been made.
\<close>

theorem errors_stay_in_callback:
  assumes "on_ValueSet config CHAINS w reg a lg = (r, t)"
  shows "(\<exists>reg'. r = Inr reg') \<and>
    (\<forall>e t1. eventId lg \<notin> reg \<and> describe_event w a lg = (Inl e, t1) \<longrightarrow>
       r = Inr reg \<and> t = t1 @ [ConsoleError (ErrorProcessing e)]) \<and>
    (\<forall>pos t1 e t2. eventId lg \<notin> reg \<and> describe_event w a lg = (Inr pos, t1) \<and>
       handleValueSetEvent config CHAINS w (data_of a lg pos) = (Inl e, t2) \<longrightarrow>
       r = Inr reg \<and> t = t1 @ t2 @ [ConsoleError (ErrorHandling e)]) \<and>
    (list_ex is_error_report t \<longrightarrow>
       deliver_all config CHAINS reg ((w, a, lg) # ds) =
         (fst (deliver_all config CHAINS reg ds), t # snd (deliver_all config CHAINS reg ds)))"
proof (cases rule: on_ValueSet_cases[of lg reg config CHAINS w a])
  case duplicate
  with assms show ?thesis by (auto simp: registry_after_def Let_def)
next
  case (processing_failed e t1)
  with assms show ?thesis by (auto simp: registry_after_def Let_def)
next
  case (handling_failed pos t1 e t2)
  with assms show ?thesis by (auto simp: registry_after_def Let_def)
next
  case (handled pos t1 t2)
  with assms callback_registry[OF assms] show ?thesis
    by (auto simp: registry_after_def Let_def)
qed

theorem errors_stay_in_callback_witness:
  "on_ValueSet optimism [optimism, base] world_rpc_fails {} args_to_base log1 =
     (Inr {}, [GetBlock 100] @ [ConsoleError (ErrorProcessing RpcError)]) \<and>
   on_ValueSet optimism [optimism, base] world_request_fails {} args_to_base log1 =
     (Inr {},
      [GetBlock 100, GetTransactionReceipt ''0xt1''] @
      [PostRequestProof 11155420 84532 100 7] @ [ConsoleError (ErrorHandling HttpError)]) \<and>
   deliver_all optimism [optimism, base] {}
     [(world_request_fails, args_to_base, log1), (world_ok, args_to_base, log1)] =
     (fst (deliver_all optimism [optimism, base] {} [(world_ok, args_to_base, log1)]),
      snd (on_ValueSet optimism [optimism, base] world_request_fails {} args_to_base log1) #
      snd (deliver_all optimism [optimism, base] {} [(world_ok, args_to_base, log1)]))"
proof -
  have 0: "eventId log1 \<notin> {}" by simp
  have 1: "describe_event world_rpc_fails args_to_base log1 = (Inl RpcError, [GetBlock 100])"
    by (simp add: eval_defs example_defs)
  have 2: "describe_event world_request_fails args_to_base log1 =
        (Inr 7, [GetBlock 100, GetTransactionReceipt ''0xt1''])"
    by (simp add: eval_defs example_defs)
  have 3: "handleValueSetEvent optimism [optimism, base] world_request_fails
        (data_of args_to_base log1 7) = (Inl HttpError, [PostRequestProof 11155420 84532 100 7])"
    by (simp add: eval_defs example_defs)
  obtain r t where a: "on_ValueSet optimism [optimism, base] world_rpc_fails {} args_to_base log1
      = (r, t)"
    by (cases "on_ValueSet optimism [optimism, base] world_rpc_fails {} args_to_base log1")
  from errors_stay_in_callback[OF a] 0 1
  have "r = Inr {} \<and> t = [GetBlock 100] @ [ConsoleError (ErrorProcessing RpcError)]"
    by blast
  with a have A: "on_ValueSet optimism [optimism, base] world_rpc_fails {} args_to_base log1 =
     (Inr {}, [GetBlock 100] @ [ConsoleError (ErrorProcessing RpcError)])" by simp
  obtain r' t' where b:
    "on_ValueSet optimism [optimism, base] world_request_fails {} args_to_base log1 = (r', t')"
    by (cases "on_ValueSet optimism [optimism, base] world_request_fails {} args_to_base log1")
  from errors_stay_in_callback[OF b, of "[(world_ok, args_to_base, log1)]"] 0 2 3
  have B: "r' = Inr {} \<and> t' = [GetBlock 100, GetTransactionReceipt ''0xt1''] @
      [PostRequestProof 11155420 84532 100 7] @ [ConsoleError (ErrorHandling HttpError)]"
    and C: "list_ex is_error_report t' \<longrightarrow>
      deliver_all optimism [optimism, base] {}
        [(world_request_fails, args_to_base, log1), (world_ok, args_to_base, log1)] =
      (fst (deliver_all optimism [optimism, base] {} [(world_ok, args_to_base, log1)]),
       t' # snd (deliver_all optimism [optimism, base] {} [(world_ok, args_to_base, log1)]))"
    by blast+
  from B have "list_ex is_error_report t'" by simp
  with A B C b show ?thesis by simp
qed

subsection \<open>A poll response without a result object\<close>

lemma handler_poll_failure:
  assumes "destination_chain w CHAINS (toString (destinationChainId (args dat))) = Some dst"
    and "requestProof w = Resolves pr" and "req_status pr = 200" and "req_data pr = Some b"
    and "fst (awaitProof w (req_result b)) = Inl e"
  shows "handleValueSetEvent config CHAINS w dat =
           (Inl e, request_action config dat # snd (awaitProof w (req_result b)))"
  using assms
  by (cases "awaitProof w (req_result b)")
     (simp add: handleValueSetEvent_def io_defs request_action_def)

text \<open>
  Claim C10: if a poll resolves with a body that has no result object (the polls before
  it having resolved with a result object and no ready proof), the loop throws a
  \<^verbatim>\<open>TypeError\<close> at that poll, the reading of \<^verbatim>\<open>result.status\<close> on line 257, and no
  further poll is issued: the response is not counted as one of the ten polls, and the
  error is not the timeout. The relay routine ends with that error.
\<close>

theorem poll_without_result_aborts:
  assumes "m < 10" and "\<forall>k<m. pending_poll (queryProof w k)"
    and "queryProof w m = Resolves r" and "\<not> has_result r"
  shows "fst (awaitProof w j) = Inl TypeError \<and>
         polls_issued (snd (awaitProof w j)) = Suc m \<and>
         fst (awaitProof w j) \<noteq> Inl ProofTimeout \<and>
         (destination_chain w CHAINS (toString (destinationChainId (args dat))) = Some dst \<and>
          requestProof w = Resolves pr \<and> req_status pr = 200 \<and> req_data pr = Some b \<longrightarrow>
            fst (handleValueSetEvent config CHAINS w dat) = Inl TypeError \<and>
            \<not> list_ex is_estimate (snd (handleValueSetEvent config CHAINS w dat)))"
proof -
  have 1: "fst (awaitProof w j) = Inl TypeError \<and> polls_issued (snd (awaitProof w j)) = Suc m"
    for j using awaitProof_no_result[OF assms] by simp
  have "fst (handleValueSetEvent config CHAINS w dat) = Inl TypeError \<and>
        \<not> list_ex is_estimate (snd (handleValueSetEvent config CHAINS w dat))"
    if h: "destination_chain w CHAINS (toString (destinationChainId (args dat))) = Some dst"
      "requestProof w = Resolves pr" "req_status pr = 200" "req_data pr = Some b"
  proof -
    have "fst (awaitProof w (req_result b)) = Inl TypeError" using 1 by simp
    from handler_poll_failure[OF h this, of config]
      awaitProof_quiet(2)[of w "req_result b" "fst (awaitProof w (req_result b))"
        "snd (awaitProof w (req_result b))"]
    show ?thesis by (simp add: request_action_def)
  qed
  with 1 show ?thesis by simp
qed

theorem poll_without_result_aborts_witness:
  "fst (awaitProof world_error_body (Some ''job1'')) = Inl TypeError \<and>
   polls_issued (snd (awaitProof world_error_body (Some ''job1''))) = 2 \<and>
   fst (handleValueSetEvent optimism [optimism, base] world_error_body
          (data_of args_to_base log1 7)) = Inl TypeError"
proof -
  have 1: "(1::nat) < 10" by simp
  have 2: "\<forall>k<1. pending_poll (queryProof world_error_body k)"
    by (simp add: example_defs pending_poll_def has_result_def ready_proof_def)
  have 3: "queryProof world_error_body 1 = Resolves error_body"
    by (simp add: example_defs)
  have 4: "\<not> has_result error_body" by (simp add: example_defs has_result_def)
  have 5: "destination_chain world_error_body [optimism, base]
      (toString (destinationChainId (args (data_of args_to_base log1 7)))) = Some base \<and>
     requestProof world_error_body =
       Resolves (RequestResponse 200 (Some (RequestBody (Some ''job1'')))) \<and>
     req_status (RequestResponse 200 (Some (RequestBody (Some ''job1'')))) = 200 \<and>
     req_data (RequestResponse 200 (Some (RequestBody (Some ''job1'')))) =
       Some (RequestBody (Some ''job1''))"
    by (simp add: example_defs data_of_def destination_chain_def toString.simps digits_def)
  from poll_without_result_aborts[OF 1 2 3 4, of "Some ''job1''" "[optimism, base]"
      "data_of args_to_base log1 7" base
      "RequestResponse 200 (Some (RequestBody (Some ''job1'')))"
      "RequestBody (Some ''job1'')" optimism] 5
  show ?thesis by simp
qed

subsection \<open>Deliveries one after the other\<close>

lemma on_ValueSet_duplicate:
  "eventId lg \<in> reg \<Longrightarrow> on_ValueSet config CHAINS w reg a lg = (Inr reg, [])"
  by (simp add: on_ValueSet_def io_defs)

text \<open>Once the identity is in the registry, every delivery of the event is a no-op.\<close>

lemma deliver_all_recorded:
  "i \<in> reg \<Longrightarrow> \<forall>d \<in> set ds. eventId (snd (snd d)) = i \<Longrightarrow>
   deliver_all config CHAINS reg ds = (reg, replicate (length ds) [])"
proof (induction ds)
  case Nil
  then show ?case by simp
next
  case (Cons d ds)
  obtain w a lg where d: "d = (w, a, lg)" by (cases d)
  with Cons.prems have "eventId lg \<in> reg" by simp
  then have "on_ValueSet config CHAINS w reg a lg = (Inr reg, [])"
    by (rule on_ValueSet_duplicate)
  with Cons d show ?case by (simp add: registry_after_def)
qed

lemma deliver_all_length: "length (snd (deliver_all config CHAINS reg ds)) = length ds"
proof (induction ds arbitrary: reg)
  case Nil
  then show ?case by simp
next
  case (Cons d ds)
  obtain w a lg where d: "d = (w, a, lg)" by (cases d)
  with Cons show ?case by (simp add: Let_def)
qed

lemma deliver_all_after_success:
  "\<forall>d \<in> set ds. eventId (snd (snd d)) = i \<Longrightarrow> m < n \<Longrightarrow> n < length ds \<Longrightarrow>
   list_ex is_confirmed (snd (deliver_all config CHAINS reg ds) ! m) \<Longrightarrow>
   snd (deliver_all config CHAINS reg ds) ! n = []"
proof (induction ds arbitrary: reg m n)
  case Nil
  then show ?case by simp
next
  case (Cons d ds)
  obtain w a lg where d: "d = (w, a, lg)" by (cases d)
  obtain r t where rt: "on_ValueSet config CHAINS w reg a lg = (r, t)"
    by (cases "on_ValueSet config CHAINS w reg a lg")
  from Cons.prems(2) obtain n' where n: "n = Suc n'" by (cases n) simp_all
  with Cons.prems(3) have n': "n' < length ds" by simp
  from Cons.prems(1) d have i: "eventId lg = i" "\<forall>d \<in> set ds. eventId (snd (snd d)) = i"
    by simp_all
  show ?case
  proof (cases m)
    case 0
    with Cons.prems(4) d rt have c: "list_ex is_confirmed t" by (simp add: Let_def)
    with callback_registry[OF rt] have "eventId lg \<notin> reg" by auto
    with callback_registry[OF rt] c have "r = Inr (insert (eventId lg) reg)" by simp
    then have "registry_after reg (r, t) = insert i reg" using i(1)
      by (simp add: registry_after_def)
    with deliver_all_recorded[OF _ i(2), of "insert i reg" config CHAINS] d rt n n'
    show ?thesis by (simp add: Let_def)
  next
    case (Suc m')
    with Cons.prems(2,4) n d rt
    have "m' < n'"
      "list_ex is_confirmed (snd (deliver_all config CHAINS (registry_after reg (r, t)) ds) ! m')"
      by (simp_all add: Let_def)
    from Cons.IH[OF i(2) this(1) n' this(2)] d rt n show ?thesis by (simp add: Let_def)
  qed
qed

lemma deliver_all_traces:
  "t \<in> set (snd (deliver_all config CHAINS reg ds)) \<Longrightarrow>
   \<exists>w reg' a lg. t = snd (on_ValueSet config CHAINS w reg' a lg)"
proof (induction ds arbitrary: reg)
  case Nil
  then show ?case by simp
next
  case (Cons d ds)
  obtain w a lg where d: "d = (w, a, lg)" by (cases d)
  from Cons.prems d consider "t = snd (on_ValueSet config CHAINS w reg a lg)"
    | "t \<in> set (snd (deliver_all config CHAINS
          (registry_after reg (on_ValueSet config CHAINS w reg a lg)) ds))"
    by (auto simp: Let_def)
  then show ?case
  proof cases
    case 1
    then show ?thesis by blast
  next
    case 2
    then show ?thesis by (rule Cons.IH)
  qed
qed

lemma on_ValueSet_submissions:
  "length (filter is_submission (snd (on_ValueSet config CHAINS w reg a lg))) \<le> 1"
  using callback_trace[of config CHAINS w reg a lg] by (cases "on_ValueSet config CHAINS w reg a lg") simp

lemma confirmed_one_submission:
  assumes "list_ex is_confirmed (snd (on_ValueSet config CHAINS w reg a lg))"
  shows "length (filter is_submission (snd (on_ValueSet config CHAINS w reg a lg))) = 1"
proof -
  obtain r t where rt: "on_ValueSet config CHAINS w reg a lg = (r, t)"
    by (cases "on_ValueSet config CHAINS w reg a lg")
  with assms callback_trace[OF rt] have "list_ex is_submission t"
    "length (filter is_submission t) \<le> 1" by simp_all
  moreover from this(1) have "filter is_submission t \<noteq> []"
    by (simp add: list_ex_iff filter_empty_conv)
  ultimately have "length (filter is_submission t) = 1"
    by (cases "filter is_submission t") simp_all
  with rt show ?thesis by simp
qed

text \<open>
  Claim C8 as stated fails in its first part: a delivery that is not successful can make
  a destination submission. Where the transaction of the first delivery is sent and its
  confirmation fails, the identity is not recorded, and the redelivery sends the
  transaction again: two submissions, the first by a delivery that did not succeed.
\<close>

theorem unconfirmed_submission_is_repeated:
  "map (\<lambda>t. (length (filter is_submission t), list_ex is_confirmed t))
     (snd (deliver_all optimism [optimism, base] {}
        [(world_wait_fails, args_to_base, log1), (world_ok, args_to_base, log1)])) =
   [(1, False), (1, True)]"
  by (simp add: wait_fails_example relayed_example registry_after_def polls_of_example_def
        Let_def)

text \<open>
  Claim C8, amended: for every sequence of deliveries of events with equal identity,
  processed one after the other: a delivery that arrives while the identity is in the
  registry returns with the registry unchanged and without any action; once a delivery
  has succeeded (its confirmation line is logged, after the one submission it made),
  every later delivery has an empty trace, so no block query, proof request or
  submission is made for it; and every delivery makes at most one submission. So the
  submissions are those of the first successful delivery and of failed deliveries
  before it.
\<close>

theorem deliveries_after_success:
  assumes "\<forall>d \<in> set ds. eventId (snd (snd d)) = i"
  shows "(i \<in> reg \<longrightarrow>
            deliver_all config CHAINS reg ds = (reg, replicate (length ds) [])) \<and>
         (\<forall>m n. m < n \<and> n < length ds \<and>
            list_ex is_confirmed (snd (deliver_all config CHAINS reg ds) ! m) \<longrightarrow>
            length (filter is_submission (snd (deliver_all config CHAINS reg ds) ! m)) = 1 \<and>
            snd (deliver_all config CHAINS reg ds) ! n = [] \<and>
            \<not> list_ex is_submission (snd (deliver_all config CHAINS reg ds) ! n)) \<and>
         (\<forall>n. n < length ds \<longrightarrow>
            length (filter is_submission (snd (deliver_all config CHAINS reg ds) ! n)) \<le> 1)"
proof -
  have trace: "\<exists>w reg' a lg.
      snd (deliver_all config CHAINS reg ds) ! m = snd (on_ValueSet config CHAINS w reg' a lg)"
    if "m < length ds" for m
  proof -
    from that have "m < length (snd (deliver_all config CHAINS reg ds))"
      by (simp add: deliver_all_length)
    then have "snd (deliver_all config CHAINS reg ds) ! m \<in>
        set (snd (deliver_all config CHAINS reg ds))" by (rule nth_mem)
    then show ?thesis by (rule deliver_all_traces)
  qed
  have after: "length (filter is_submission (snd (deliver_all config CHAINS reg ds) ! m)) = 1 \<and>
        snd (deliver_all config CHAINS reg ds) ! n = [] \<and>
        \<not> list_ex is_submission (snd (deliver_all config CHAINS reg ds) ! n)"
    if "m < n" "n < length ds"
      "list_ex is_confirmed (snd (deliver_all config CHAINS reg ds) ! m)" for m n
  proof -
    from that(1,2) have "m < length ds" by simp
    from trace[OF this] obtain w reg' a lg where
      "snd (deliver_all config CHAINS reg ds) ! m = snd (on_ValueSet config CHAINS w reg' a lg)"
      by blast
    with that(3) confirmed_one_submission[of config CHAINS w reg' a lg]
    have "length (filter is_submission (snd (deliver_all config CHAINS reg ds) ! m)) = 1"
      by simp
    with deliver_all_after_success[OF assms that] show ?thesis by simp
  qed
  have once: "length (filter is_submission (snd (deliver_all config CHAINS reg ds) ! n)) \<le> 1"
    if "n < length ds" for n
  proof -
    from trace[OF that] obtain w reg' a lg where
      "snd (deliver_all config CHAINS reg ds) ! n = snd (on_ValueSet config CHAINS w reg' a lg)"
      by blast
    with on_ValueSet_submissions[of config CHAINS w reg' a lg] show ?thesis by simp
  qed
  from deliver_all_recorded[OF _ assms, of reg config CHAINS] after once
  show ?thesis by blast
qed

lemma three_deliveries_example:
  "deliver_all optimism [optimism, base] {} three_deliveries =
     ({''0xb1-0xt1-3''},
      [[GetBlock 100, GetTransactionReceipt ''0xt1'', PostRequestProof 11155420 84532 100 7] @
       polls_of_example @
       [EstimateGas base 0 ''0x010203'', ConsoleError (ErrorHandling GasEstimationError)],
       [GetBlock 100, GetTransactionReceipt ''0xt1'', PostRequestProof 11155420 84532 100 7] @
       polls_of_example @
       [EstimateGas base 0 ''0x010203'', SendTransaction base 0 ''0x010203'' 21000,
        WaitTransaction ''0xtx'', ConsoleLog (TransactionConfirmed 20000)],
       []])"
  by (simp add: three_deliveries_def gas_fails_example relayed_example registry_after_def
        on_ValueSet_duplicate eventId_log1 Let_def)

theorem deliveries_after_success_witness:
  "list_ex is_confirmed (snd (deliver_all optimism [optimism, base] {} three_deliveries) ! 1) \<and>
   snd (deliver_all optimism [optimism, base] {} three_deliveries) ! 2 = [] \<and>
   deliver_all optimism [optimism, base] {eventId log1} three_deliveries =
     ({eventId log1}, [[], [], []])"
proof -
  have 1: "\<forall>d \<in> set three_deliveries. eventId (snd (snd d)) = eventId log1"
    by (simp add: three_deliveries_def)
  have 2: "(1::nat) < 2 \<and> 2 < length three_deliveries \<and>
     list_ex is_confirmed (snd (deliver_all optimism [optimism, base] {} three_deliveries) ! 1)"
    by (simp add: three_deliveries_example polls_of_example_def)
       (simp add: three_deliveries_def)
  have 3: "eventId log1 \<in> {eventId log1}" by simp
  have len: "replicate (length three_deliveries) ([] :: action list) = [[], [], []]"
    by (simp add: three_deliveries_def)
  have a: "snd (deliver_all optimism [optimism, base] {} three_deliveries) ! 2 = []"
    using deliveries_after_success[OF 1, of "{}" optimism "[optimism, base]",
        THEN conjunct2, THEN conjunct1, rule_format, of 1 2] 2
    by blast
  have b: "deliver_all optimism [optimism, base] {eventId log1} three_deliveries =
     ({eventId log1}, [[], [], []])"
    using deliveries_after_success[OF 1, of "{eventId log1}" optimism "[optimism, base]",
        THEN conjunct1, rule_format, OF 3]
    by (simp only: len)
  from 2 a b show ?thesis by blast
qed

subsection \<open>Deliveries in flight at the same time\<close>

lemma on_ValueSet_fresh:
  "eventId lg \<notin> reg \<Longrightarrow>
   on_ValueSet config CHAINS w reg a lg =
     try_catch (callback_rest config CHAINS w reg a lg) (processing_error reg)"
  by (simp add: on_ValueSet_def)

text \<open>The trace of the callback after the check does not depend on the registry.\<close>

lemma callback_rest_trace:
  "snd (try_catch (callback_rest config CHAINS w reg a lg) (processing_error reg)) =
   snd (try_catch (callback_rest config CHAINS w reg' a lg) (processing_error reg'))"
  by (simp add: callback_rest_def processing_error_def handling_error_def io_defs
        split: prod.splits sum.splits)

text \<open>The machine agrees with the callback: a delivery that runs alone, its two steps
  one after the other, is the callback.\<close>

lemma run_alone:
  "run config CHAINS [0, 0] \<lparr>registry = reg, tasks = [Delivered w a lg], performed = []\<rparr> =
     \<lparr>registry = registry_after reg (on_ValueSet config CHAINS w reg a lg),
      tasks = [Finished],
      performed = snd (on_ValueSet config CHAINS w reg a lg)\<rparr>"
  by (simp add: resume_def on_ValueSet_def Let_def registry_after_def io_defs)

lemma run_both_checks_first:
  assumes "eventId lg0 = eventId lg1" and "eventId lg0 \<notin> reg"
  shows "performed (run config CHAINS [0, 1, 0, 1]
           \<lparr>registry = reg, tasks = [Delivered w0 a0 lg0, Delivered w1 a1 lg1],
            performed = []\<rparr>) =
         snd (on_ValueSet config CHAINS w0 reg a0 lg0) @
         snd (on_ValueSet config CHAINS w1 reg a1 lg1)"
proof -
  from assms have 1: "eventId lg1 \<notin> reg" by simp
  show ?thesis
    using callback_rest_trace[of config CHAINS w1 _ a1 lg1 reg]
    by (simp add: resume_def Let_def on_ValueSet_fresh[OF assms(2)] on_ValueSet_fresh[OF 1]
          assms(2) 1)
qed

lemma run_second_finishes_first:
  assumes "eventId lg0 = eventId lg1" and "eventId lg0 \<notin> reg"
  shows "performed (run config CHAINS [0, 1, 1, 0]
           \<lparr>registry = reg, tasks = [Delivered w0 a0 lg0, Delivered w1 a1 lg1],
            performed = []\<rparr>) =
         snd (on_ValueSet config CHAINS w1 reg a1 lg1) @
         snd (on_ValueSet config CHAINS w0 reg a0 lg0)"
proof -
  from assms have 1: "eventId lg1 \<notin> reg" by simp
  show ?thesis
    using callback_rest_trace[of config CHAINS w0 _ a0 lg0 reg]
    by (simp add: resume_def Let_def on_ValueSet_fresh[OF assms(2)] on_ValueSet_fresh[OF 1]
          assms(2) 1)
qed

lemma run_checks_then_rests:
  assumes "eventId lg0 = eventId lg1" and "eventId lg0 \<notin> reg"
    and "(i = 0 \<and> j = 1) \<or> (i = 1 \<and> j = 0)" and "(k = 0 \<and> l = 1) \<or> (k = 1 \<and> l = 0)"
  shows "performed (run config CHAINS [i, j, k, l]
           \<lparr>registry = reg, tasks = [Delivered w0 a0 lg0, Delivered w1 a1 lg1],
            performed = []\<rparr>) =
         [snd (on_ValueSet config CHAINS w0 reg a0 lg0),
          snd (on_ValueSet config CHAINS w1 reg a1 lg1)] ! k @
         [snd (on_ValueSet config CHAINS w0 reg a0 lg0),
          snd (on_ValueSet config CHAINS w1 reg a1 lg1)] ! l"
proof -
  from assms have 1: "eventId lg1 \<notin> reg" by simp
  note fresh = on_ValueSet_fresh[OF assms(2)] on_ValueSet_fresh[OF 1]
  from assms(3,4) consider "i = 0 \<and> j = 1 \<and> k = 0 \<and> l = 1" | "i = 0 \<and> j = 1 \<and> k = 1 \<and> l = 0"
    | "i = 1 \<and> j = 0 \<and> k = 0 \<and> l = 1" | "i = 1 \<and> j = 0 \<and> k = 1 \<and> l = 0" by blast
  then show ?thesis
  proof cases
    case 1
    then show ?thesis
      using callback_rest_trace[of config CHAINS w1 _ a1 lg1 reg]
      by (simp add: resume_def Let_def fresh assms(2) \<open>eventId lg1 \<notin> reg\<close>)
  next
    case 2
    then show ?thesis
      using callback_rest_trace[of config CHAINS w0 _ a0 lg0 reg]
      by (simp add: resume_def Let_def fresh assms(2) \<open>eventId lg1 \<notin> reg\<close>)
  next
    case 3
    then show ?thesis
      using callback_rest_trace[of config CHAINS w1 _ a1 lg1 reg]
      by (simp add: resume_def Let_def fresh assms(2) \<open>eventId lg1 \<notin> reg\<close>)
  next
    case 4
    then show ?thesis
      using callback_rest_trace[of config CHAINS w0 _ a0 lg0 reg]
      by (simp add: resume_def Let_def fresh assms(2) \<open>eventId lg1 \<notin> reg\<close>)
  qed
qed

text \<open>
  Claim C4 as stated fails: two deliveries of the same event, each passing the check
  before the other has finished, both send the transaction to the destination chain.
\<close>

theorem concurrent_deliveries_both_submit:
  "eventId log1 \<notin> registry two_concurrent \<and>
   length (filter is_submission
     (performed (run optimism [optimism, base] [0, 1, 0, 1] two_concurrent))) = 2"
  using run_both_checks_first[of log1 log1 "{}" optimism "[optimism, base]"
      world_ok args_to_base world_ok args_to_base]
  by (simp add: two_concurrent_def relayed_example polls_of_example_def)

text \<open>
  Claim C4, amended: for every pair of deliveries of events with equal identity, not yet
  in the registry, whose checks both run, in either order, before either delivery
  finishes: each delivery passes the check and then acts exactly as if it had been
  delivered alone, the two finishing in either order; so both relay attempts can reach
  the destination submission, each at most once, and at most two submissions are made
  for the pair.
\<close>

theorem concurrent_deliveries_run_independently:
  assumes "eventId lg0 = eventId lg1" and "eventId lg0 \<notin> reg"
    and "(i = 0 \<and> j = 1) \<or> (i = 1 \<and> j = 0)" and "(k = 0 \<and> l = 1) \<or> (k = 1 \<and> l = 0)"
  shows "performed (run config CHAINS [i, j, k, l]
           \<lparr>registry = reg, tasks = [Delivered w0 a0 lg0, Delivered w1 a1 lg1],
            performed = []\<rparr>) =
           [snd (on_ValueSet config CHAINS w0 reg a0 lg0),
            snd (on_ValueSet config CHAINS w1 reg a1 lg1)] ! k @
           [snd (on_ValueSet config CHAINS w0 reg a0 lg0),
            snd (on_ValueSet config CHAINS w1 reg a1 lg1)] ! l \<and>
         length (filter is_submission (snd (on_ValueSet config CHAINS w0 reg a0 lg0))) \<le> 1 \<and>
         length (filter is_submission (snd (on_ValueSet config CHAINS w1 reg a1 lg1))) \<le> 1 \<and>
         length (filter is_submission
           (performed (run config CHAINS [i, j, k, l]
             \<lparr>registry = reg, tasks = [Delivered w0 a0 lg0, Delivered w1 a1 lg1],
              performed = []\<rparr>))) \<le> 2"
proof -
  note r = run_checks_then_rests[OF assms, of config CHAINS w0 a0 w1 a1]
  note s0 = on_ValueSet_submissions[of config CHAINS w0 reg a0 lg0]
  note s1 = on_ValueSet_submissions[of config CHAINS w1 reg a1 lg1]
  from assms(4) s0 s1 have "length (filter is_submission
           ([snd (on_ValueSet config CHAINS w0 reg a0 lg0),
            snd (on_ValueSet config CHAINS w1 reg a1 lg1)] ! k @
           [snd (on_ValueSet config CHAINS w0 reg a0 lg0),
            snd (on_ValueSet config CHAINS w1 reg a1 lg1)] ! l)) \<le> 2"
    by auto
  with r s0 s1 show ?thesis by (simp only:)
qed

theorem concurrent_deliveries_run_independently_witness:
  "performed (run optimism [optimism, base] [1, 0, 1, 0] two_concurrent) =
     snd (on_ValueSet optimism [optimism, base] world_ok {} args_to_base log1) @
     snd (on_ValueSet optimism [optimism, base] world_ok {} args_to_base log1) \<and>
   length (filter is_submission
     (performed (run optimism [optimism, base] [1, 0, 1, 0] two_concurrent))) \<le> 2"
proof -
  have 1: "eventId log1 = eventId log1" by simp
  have 2: "eventId log1 \<notin> {}" by simp
  have 3: "((1::nat) = 0 \<and> (0::nat) = 1) \<or> ((1::nat) = 1 \<and> (0::nat) = 0)" by simp
  from concurrent_deliveries_run_independently[OF 1 2 3 3, of optimism "[optimism, base]"
      world_ok args_to_base world_ok args_to_base]
  show ?thesis by (simp add: two_concurrent_def)
qed

subsection \<open>Base64 and hexadecimal round trips\<close>


lemma unat_byte: "unat (x :: byte) < 256"
  using unsigned_less[of x, where 'a=nat] by simp

lemma of_nat_unat_byte: "of_nat (unat (x :: byte)) = x"
  by simp

lemma group_bounds:
  assumes "x < (256::nat)" "y < 256" "z < 256"
  shows "x div 4 < 64" "(x mod 4) * 16 + y div 16 < 64" "(y mod 16) * 4 + z div 64 < 64"
    "z mod 64 < 64" "(x mod 4) * 16 < 64" "(y mod 16) * 4 < 64"
  using assms by simp_all

lemma group_back:
  assumes "x < (256::nat)" "y < 256" "z < 256"
  shows "(x div 4) * 4 + ((x mod 4) * 16 + y div 16) div 16 = x"
    "(((x mod 4) * 16 + y div 16) mod 16) * 16 + ((y mod 16) * 4 + z div 64) div 4 = y"
    "(((y mod 16) * 4 + z div 64) mod 4) * 64 + z mod 64 = z"
    "(x div 4) * 4 + ((x mod 4) * 16) div 16 = x"
    "(((x mod 4) * 16 + y div 16) mod 16) * 16 + ((y mod 16) * 4) div 4 = y"
proof -
  have a: "y div 16 < 16" "z div 64 < 4" using assms by simp_all
  show "(x div 4) * 4 + ((x mod 4) * 16 + y div 16) div 16 = x"
    "(((x mod 4) * 16 + y div 16) mod 16) * 16 + ((y mod 16) * 4 + z div 64) div 4 = y"
    "(((y mod 16) * 4 + z div 64) mod 4) * 64 + z mod 64 = z"
    "(x div 4) * 4 + ((x mod 4) * 16) div 16 = x"
    "(((x mod 4) * 16 + y div 16) mod 16) * 16 + ((y mod 16) * 4) div 4 = y"
    using a by simp_all
qed


text \<open>A property of all numbers below a numeral, one number at a time.\<close>

lemma all_less_numeral:
  "(\<forall>n<numeral k. P n) \<longleftrightarrow> P (pred_numeral k) \<and> (\<forall>n<pred_numeral k. P n)"
  by (simp add: numeral_eq_Suc All_less_Suc)

lemma unbase64_table: "n < 64 \<Longrightarrow> unbase64 (base64_table ! n) = Some n"
proof -
  have "\<forall>n<64. unbase64 (base64_table ! n) = Some n"
    by (simp add: all_less_numeral unbase64_def base64_table_def)
  then show "n < 64 \<Longrightarrow> unbase64 (base64_table ! n) = Some n" by simp
qed

lemma hex_value_table: "n < 16 \<Longrightarrow> hex_value (hex_table ! n) = Some n"
proof -
  have "\<forall>n<16. hex_value (hex_table ! n) = Some n"
    by (simp add: all_less_numeral hex_value_def hex_table_def)
  then show "n < 16 \<Longrightarrow> hex_value (hex_table ! n) = Some n" by simp
qed

lemma unbase64_pad: "unbase64 CHR ''='' = None"
  by (simp add: unbase64_def)

lemma table_not_pad: "n < 64 \<Longrightarrow> base64_table ! n \<noteq> CHR ''=''"
  using unbase64_table[of n] unbase64_pad by auto

lemma sextets_table: "n < 64 \<Longrightarrow> sextets (base64_table ! n # cs) = n # sextets cs"
  by (simp add: unbase64_table table_not_pad)

lemma sextets_pad: "sextets (CHR ''='' # cs) = []"
  by simp

lemma bytes_of_group:
  assumes "x < (256::nat)" "y < 256" "z < 256"
  shows "sextets_to_bytes (x div 4 # ((x mod 4) * 16 + y div 16) #
           ((y mod 16) * 4 + z div 64) # z mod 64 # r) =
         of_nat x # of_nat y # of_nat z # sextets_to_bytes r"
    and "sextets_to_bytes [x div 4, (x mod 4) * 16 + y div 16, (y mod 16) * 4] =
         [of_nat x, of_nat y]"
    and "sextets_to_bytes [x div 4, (x mod 4) * 16] = [of_nat x]"
  by (simp_all only: sextets_to_bytes.simps group_back[OF assms])

lemma Buffer_from_base64_toString:
  "Buffer_from_base64 (toString_base64 bs) = bs"
proof (induction bs rule: toString_base64.induct)
  case (1 x y z r)
  note b = group_bounds[OF unat_byte[of x] unat_byte[of y] unat_byte[of z]]
  have "sextets (toString_base64 (x # y # z # r)) =
     unat x div 4 # ((unat x mod 4) * 16 + unat y div 16) #
     ((unat y mod 16) * 4 + unat z div 64) # unat z mod 64 # sextets (toString_base64 r)"
    by (simp only: toString_base64.simps sextets_table b)
  with 1 show ?case
    by (simp only: Buffer_from_base64_def
          bytes_of_group(1)[OF unat_byte[of x] unat_byte[of y] unat_byte[of z]]
          of_nat_unat_byte)
next
  case (2 x y)
  note b = group_bounds[OF unat_byte[of x] unat_byte[of y] unat_byte[of y]]
  have "sextets (toString_base64 [x, y]) =
     [unat x div 4, (unat x mod 4) * 16 + unat y div 16, (unat y mod 16) * 4]"
    by (simp only: toString_base64.simps sextets_table sextets_pad b)
  then show ?case
    by (simp only: Buffer_from_base64_def
          bytes_of_group(2)[OF unat_byte[of x] unat_byte[of y] unat_byte[of y]]
          of_nat_unat_byte)
next
  case (3 x)
  note b = group_bounds[OF unat_byte[of x] unat_byte[of x] unat_byte[of x]]
  have "sextets (toString_base64 [x]) = [unat x div 4, (unat x mod 4) * 16]"
    by (simp only: toString_base64.simps sextets_table sextets_pad b)
  then show ?case
    by (simp only: Buffer_from_base64_def
          bytes_of_group(3)[OF unat_byte[of x] unat_byte[of x] unat_byte[of x]]
          of_nat_unat_byte)
next
  case 4
  show ?case by (simp add: Buffer_from_base64_def)
qed

lemma hex_pairs_toString: "hex_pairs (toString_hex bs) = Some bs"
proof (induction bs)
  case Nil
  then show ?case by simp
next
  case (Cons x bs)
  have b: "unat x div 16 < 16" "unat x mod 16 < 16" using unat_byte[of x] by simp_all
  have "of_nat (16 * (unat x div 16) + unat x mod 16) = x"
    by (simp only: mult_div_mod_eq of_nat_unat_byte)
  with Cons show ?case
    by (simp only: toString_hex.simps hex_pairs.simps hex_value_table[OF b(1)]
          hex_value_table[OF b(2)] option.case)
qed

lemma getBytes_toString_hex: "getBytes (''0x'' @ toString_hex bs) = Some bs"
  by (simp add: getBytes_def hex_pairs_toString)

subsection \<open>The proof that is submitted\<close>

lemma poll_action_not_submission:
  "list_all is_poll_action t \<Longrightarrow> SendTransaction c i b g \<notin> set t"
  by (auto simp: list_all_iff)

text \<open>The proof that the loop returns is the proof of the first poll that carries one,
  the polls before it having resolved with a result object and no proof.\<close>

lemma poll_loop_returns_first_ready:
  "poll_loop w j d a pr = (Inr p, t) \<Longrightarrow> ready_proof pr = None \<Longrightarrow>
   \<exists>m r. a \<le> m \<and> m < 10 \<and> (\<forall>k. a \<le> k \<and> k < m \<longrightarrow> pending_poll (queryProof w k)) \<and>
     queryProof w m = Resolves r \<and> ready_proof (Some r) = Some p"
proof (induction w j d a pr arbitrary: t rule: poll_loop.induct)
  case (1 w jobId delay attempts proofResponse)
  note None = "1.prems"(2)
  show ?case
  proof (cases "10 \<le> attempts")
    case True
    with None "1.prems"(1) show ?thesis by (simp add: poll_loop_timeout)
  next
    case False
    then have a: "attempts < 10" by simp
    show ?thesis
    proof (cases "queryProof w attempts")
      case Rejects
      with None a "1.prems"(1) show ?thesis by (simp add: poll_loop_rejects)
    next
      case (Resolves r)
      show ?thesis
      proof (cases "has_result r")
        case False
        with None a Resolves "1.prems"(1) show ?thesis by (simp add: poll_loop_no_result)
      next
        case True
        from poll_loop_step[OF None a Resolves True, where d=delay and j=jobId]
        obtain st where st: "poll_loop w jobId delay attempts proofResponse =
           (fst (poll_loop w jobId delay (Suc attempts) (Some r)),
            [Sleep delay, PostQueryProof jobId, ConsoleLog (ProofStatus st)] @
            snd (poll_loop w jobId delay (Suc attempts) (Some r)))" by blast
        with "1.prems"(1) have next_run: "poll_loop w jobId delay (attempts + 1) (Some r) =
           (Inr p, snd (poll_loop w jobId delay (Suc attempts) (Some r)))"
          by (cases "poll_loop w jobId delay (Suc attempts) (Some r)") simp
        show ?thesis
        proof (cases "ready_proof (Some r)")
          case (Some q)
          with next_run have "q = p" by (simp add: poll_loop_ready)
          with Some Resolves a show ?thesis by (intro exI[of _ attempts] exI[of _ r]) auto
        next
          case none: None
          with Resolves True have pend: "pending_poll (queryProof w attempts)"
            by (simp add: pending_poll_def)
          from "1.IH"[OF None False next_run none]
          obtain m r' where m: "attempts + 1 \<le> m" "m < 10"
            "\<forall>k. attempts + 1 \<le> k \<and> k < m \<longrightarrow> pending_poll (queryProof w k)"
            "queryProof w m = Resolves r'" "ready_proof (Some r') = Some p" by blast
          have "\<forall>k. attempts \<le> k \<and> k < m \<longrightarrow> pending_poll (queryProof w k)"
          proof (intro allI impI)
            fix k assume k: "attempts \<le> k \<and> k < m"
            show "pending_poll (queryProof w k)"
            proof (cases "k = attempts")
              case True
              with pend show ?thesis by simp
            next
              case False
              with k have "attempts + 1 \<le> k \<and> k < m" by simp
              with m(3) show ?thesis by blast
            qed
          qed
          with m show ?thesis by (intro exI[of _ m] exI[of _ r']) simp
        qed
      qed
    qed
  qed
qed

lemma awaitProof_returns_first_ready:
  assumes "fst (awaitProof w j) = Inr p"
  shows "\<exists>m r. m < 10 \<and> (\<forall>k<m. pending_poll (queryProof w k)) \<and>
     queryProof w m = Resolves r \<and> ready_proof (Some r) = Some p"
proof -
  from assms have "poll_loop w j 10000 0 None = (Inr p, snd (poll_loop w j 10000 0 None))"
    by (cases "poll_loop w j 10000 0 None") (simp add: awaitProof_poll_loop)
  from poll_loop_returns_first_ready[OF this ready_proof_None] show ?thesis by simp
qed

lemma poll_action_not_estimate:
  "list_all is_poll_action t \<Longrightarrow> EstimateGas c i b \<notin> set t"
  by (auto simp: list_all_iff)

text \<open>The relay routine after a proof: the request, the polls, the submission.\<close>

lemma handler_submits:
  assumes "destination_chain w CHAINS (toString (destinationChainId (args dat))) = Some dst"
    and "requestProof w = Resolves pr" and "req_status pr = 200" and "req_data pr = Some bd"
    and "fst (awaitProof w (req_result bd)) = Inr p"
  shows "handleValueSetEvent config CHAINS w dat =
           (fst (submitProof w dst p),
            request_action config dat # snd (awaitProof w (req_result bd)) @
            snd (submitProof w dst p))"
  using assms
  by (cases "awaitProof w (req_result bd)")
     (simp add: handleValueSetEvent_def io_defs request_action_def split: prod.splits)

text \<open>A gas estimation or a transaction in the trace of the relay routine comes from the
  submission of the proof that the loop returned for the requested job.\<close>

lemma handler_submission_origin:
  assumes "EstimateGas c i b \<in> set (snd (handleValueSetEvent config CHAINS w dat)) \<or>
           SendTransaction c i b g \<in> set (snd (handleValueSetEvent config CHAINS w dat))"
  shows "\<exists>pr bd p. requestProof w = Resolves pr \<and> req_status pr = 200 \<and>
           req_data pr = Some bd \<and> fst (awaitProof w (req_result bd)) = Inr p \<and>
           destination_chain w CHAINS (toString (destinationChainId (args dat))) = Some c \<and>
           i = 0 \<and> b = ''0x'' @ toString_hex (Buffer_from_base64 p)"
proof (cases "destination_chain w CHAINS (toString (destinationChainId (args dat)))")
  case None
  with assms show ?thesis by (simp add: handleValueSetEvent_def io_defs)
next
  case (Some dst)
  show ?thesis
  proof (cases "requestProof w")
    case Rejects
    with Some assms show ?thesis by (simp add: handleValueSetEvent_def io_defs)
  next
    case (Resolves pr)
    show ?thesis
    proof (cases "req_status pr = 200")
      case False
      with Some Resolves assms show ?thesis by (simp add: handleValueSetEvent_def io_defs)
    next
      case True
      show ?thesis
      proof (cases "req_data pr")
        case None
        with Some Resolves True assms show ?thesis
          by (simp add: handleValueSetEvent_def io_defs)
      next
        case bd: (Some bd)
        obtain x tp where ap: "awaitProof w (req_result bd) = (x, tp)"
          by (cases "awaitProof w (req_result bd)")
        note quiet = poll_action_not_estimate[OF awaitProof_actions[OF ap]]
          poll_action_not_submission[OF awaitProof_actions[OF ap]]
        show ?thesis
        proof (cases x)
          case (Inl e)
          with ap have "fst (awaitProof w (req_result bd)) = Inl e" by simp
          from handler_poll_failure[OF Some Resolves True bd this, of config] assms ap quiet
          show ?thesis by (simp add: request_action_def)
        next
          case (Inr p)
          with ap have p: "fst (awaitProof w (req_result bd)) = Inr p" by simp
          from handler_submits[OF Some Resolves True bd p, of config] assms ap quiet
          have "EstimateGas c i b \<in> set (snd (submitProof w dst p)) \<or>
                SendTransaction c i b g \<in> set (snd (submitProof w dst p))"
            by (simp add: request_action_def)
          then have "i = 0 \<and> c = dst \<and> b = ''0x'' @ toString_hex (Buffer_from_base64 p)"
            by (auto simp: submitProof_eq Let_def split: settled.splits)
          with Some Resolves True bd p show ?thesis by simp
        qed
      qed
    qed
  qed
qed


text \<open>
  Claim C6: encoding bytes as base64 and decoding them gives the bytes back; and the
  proof that the poll loop returns, which is the proof of the first poll that carries
  one, is decoded before use: the gas estimation and the transaction of the relay routine
  carry, as their proof argument, the hex string of the decoded bytes of that proof,
  which the destination call reads back as exactly those bytes. Every gas estimation and
  every transaction of the routine is of that kind, and after a proof is returned the
  routine makes exactly that estimation and, when the estimation succeeds, exactly that
  transaction.
\<close>

theorem submitted_proof_bytes:
  "Buffer_from_base64 (toString_base64 bs) = bs \<and>
   (EstimateGas c i b \<in> set (snd (handleValueSetEvent config CHAINS w dat)) \<or>
    SendTransaction c i b g \<in> set (snd (handleValueSetEvent config CHAINS w dat)) \<longrightarrow>
      (\<exists>rq bd p m r. requestProof w = Resolves rq \<and> req_data rq = Some bd \<and>
         fst (awaitProof w (req_result bd)) = Inr p \<and>
         m < 10 \<and> (\<forall>k<m. pending_poll (queryProof w k)) \<and>
         queryProof w m = Resolves r \<and> ready_proof (Some r) = Some p \<and>
         destination_chain w CHAINS (toString (destinationChainId (args dat))) = Some c \<and>
         i = 0 \<and> b = ''0x'' @ toString_hex (Buffer_from_base64 p) \<and>
         getBytes b = Some (Buffer_from_base64 p))) \<and>
   (destination_chain w CHAINS (toString (destinationChainId (args dat))) = Some dst \<and>
    requestProof w = Resolves pr \<and> req_status pr = 200 \<and> req_data pr = Some body \<and>
    fst (awaitProof w (req_result body)) = Inr proof \<longrightarrow>
      getBytes (''0x'' @ toString_hex (Buffer_from_base64 proof)) =
        Some (Buffer_from_base64 proof) \<and>
      filter is_estimate (snd (handleValueSetEvent config CHAINS w dat)) =
        [EstimateGas dst 0 (''0x'' @ toString_hex (Buffer_from_base64 proof))] \<and>
      filter is_submission (snd (handleValueSetEvent config CHAINS w dat)) =
        (case estimateGas w of
           Rejects \<Rightarrow> []
         | Resolves gas \<Rightarrow>
             [SendTransaction dst 0 (''0x'' @ toString_hex (Buffer_from_base64 proof)) gas]))"
proof -
  have origin: "\<exists>rq bd p m r. requestProof w = Resolves rq \<and> req_data rq = Some bd \<and>
         fst (awaitProof w (req_result bd)) = Inr p \<and>
         m < 10 \<and> (\<forall>k<m. pending_poll (queryProof w k)) \<and>
         queryProof w m = Resolves r \<and> ready_proof (Some r) = Some p \<and>
         destination_chain w CHAINS (toString (destinationChainId (args dat))) = Some c \<and>
         i = 0 \<and> b = ''0x'' @ toString_hex (Buffer_from_base64 p) \<and>
         getBytes b = Some (Buffer_from_base64 p)"
    if "EstimateGas c i b \<in> set (snd (handleValueSetEvent config CHAINS w dat)) \<or>
        SendTransaction c i b g \<in> set (snd (handleValueSetEvent config CHAINS w dat))"
  proof -
    from handler_submission_origin[OF that] obtain rq bd p where o:
      "requestProof w = Resolves rq" "req_data rq = Some bd"
      "fst (awaitProof w (req_result bd)) = Inr p"
      "destination_chain w CHAINS (toString (destinationChainId (args dat))) = Some c"
      "i = 0" "b = ''0x'' @ toString_hex (Buffer_from_base64 p)" by blast
    from awaitProof_returns_first_ready[OF o(3)] obtain m r where m:
      "m < 10" "\<forall>k<m. pending_poll (queryProof w k)" "queryProof w m = Resolves r"
      "ready_proof (Some r) = Some p" by blast
    from o(6) have "getBytes b = Some (Buffer_from_base64 p)"
      by (simp only: getBytes_toString_hex)
    with o m show ?thesis by blast
  qed
  have forth: "getBytes (''0x'' @ toString_hex (Buffer_from_base64 proof)) =
        Some (Buffer_from_base64 proof) \<and>
      filter is_estimate (snd (handleValueSetEvent config CHAINS w dat)) =
        [EstimateGas dst 0 (''0x'' @ toString_hex (Buffer_from_base64 proof))] \<and>
      filter is_submission (snd (handleValueSetEvent config CHAINS w dat)) =
        (case estimateGas w of
           Rejects \<Rightarrow> []
         | Resolves gas \<Rightarrow>
             [SendTransaction dst 0 (''0x'' @ toString_hex (Buffer_from_base64 proof)) gas])"
    if h: "destination_chain w CHAINS (toString (destinationChainId (args dat))) = Some dst"
      "requestProof w = Resolves pr" "req_status pr = 200" "req_data pr = Some body"
      "fst (awaitProof w (req_result body)) = Inr proof"
  proof -
    note q = poll_actions_filter[OF awaitProof_actions[OF prod.collapse[symmetric],
          of w "req_result body"]]
    from handler_submits[OF h, of config] q show ?thesis
      by (simp add: getBytes_toString_hex submitProof_eq Let_def request_action_def
            split: settled.splits del: append.simps)
  qed
  from origin forth show ?thesis by (simp only: Buffer_from_base64_toString) blast
qed

lemma handler_example:
  "handleValueSetEvent optimism [optimism, base] world_ok (data_of args_to_base log1 7) =
     (Inr (),
      [PostRequestProof 11155420 84532 100 7] @ polls_of_example @
      [EstimateGas base 0 ''0x010203'', SendTransaction base 0 ''0x010203'' 21000,
       WaitTransaction ''0xtx'', ConsoleLog (TransactionConfirmed 20000)])"
  by (simp add: eval_defs example_defs polls_of_example_def)

theorem submitted_proof_bytes_witness:
  "filter is_submission
     (snd (handleValueSetEvent optimism [optimism, base] world_ok
        (data_of args_to_base log1 7))) = [SendTransaction base 0 ''0x010203'' 21000] \<and>
   getBytes ''0x010203'' = Some (Buffer_from_base64 ''AQID'') \<and>
   (\<exists>rq bd. requestProof world_ok = Resolves rq \<and> req_data rq = Some bd \<and>
      fst (awaitProof world_ok (req_result bd)) = Inr ''AQID'')"
proof -
  let ?H = "handleValueSetEvent optimism [optimism, base] world_ok (data_of args_to_base log1 7)"
  note inst = submitted_proof_bytes[of "[]" base 0 "''0x010203''" optimism "[optimism, base]"
      world_ok "data_of args_to_base log1 7" 21000 base
      "RequestResponse 200 (Some (RequestBody (Some ''job1'')))"
      "RequestBody (Some ''job1'')" "''AQID''"]
  have 1: "EstimateGas base 0 ''0x010203'' \<in> set (snd ?H) \<or>
           SendTransaction base 0 ''0x010203'' 21000 \<in> set (snd ?H)"
    by (simp add: handler_example polls_of_example_def)
  have 2: "destination_chain world_ok [optimism, base]
      (toString (destinationChainId (args (data_of args_to_base log1 7)))) = Some base \<and>
    requestProof world_ok = Resolves (RequestResponse 200 (Some (RequestBody (Some ''job1'')))) \<and>
    req_status (RequestResponse 200 (Some (RequestBody (Some ''job1'')))) = 200 \<and>
    req_data (RequestResponse 200 (Some (RequestBody (Some ''job1'')))) =
      Some (RequestBody (Some ''job1'')) \<and>
    fst (awaitProof world_ok (req_result (RequestBody (Some ''job1'')))) = Inr ''AQID''"
    by (simp add: eval_defs example_defs)
  have 3: "''0x'' @ toString_hex (Buffer_from_base64 ''AQID'') = ''0x010203''"
    "estimateGas world_ok = Resolves 21000"
    by (simp_all add: eval_defs example_defs)
  from inst[THEN conjunct2, THEN conjunct1, THEN mp, OF 1]
  obtain rq bd p where b: "requestProof world_ok = Resolves rq" "req_data rq = Some bd"
    "fst (awaitProof world_ok (req_result bd)) = Inr p"
    "''0x010203'' = ''0x'' @ toString_hex (Buffer_from_base64 p)" by blast
  from b(1,2) 2 have "req_result bd = Some ''job1''" by auto
  with b(3) 2 have "p = ''AQID''" by simp
  with b have B: "\<exists>rq bd. requestProof world_ok = Resolves rq \<and> req_data rq = Some bd \<and>
      fst (awaitProof world_ok (req_result bd)) = Inr ''AQID''" by blast
  from inst[THEN conjunct2, THEN conjunct2, THEN mp, OF 2] 3
  have "getBytes ''0x010203'' = Some (Buffer_from_base64 ''AQID'') \<and>
     filter is_submission (snd ?H) = [SendTransaction base 0 ''0x010203'' 21000]"
    by simp
  with B show ?thesis by blast
qed

end
